theory Spec2Isabelle
  imports Main "HOL-Library.Product_Lexorder"
begin

section \<open>The window operator of physical\_window.cpp: data model\<close>

text \<open>
  The embedding follows \<^verbatim>\<open>src/execution/operator/aggregate/physical_window.cpp\<close>.
  \<^verbatim>\<open>idx_t\<close> is an unsigned 64-bit integer.  Sizes of containers, indices into them and
  the row and block counters are modelled as \<^typ>\<open>nat\<close>; the one place where the code can
  run a counter below zero, the pre-decrement of \<^verbatim>\<open>tasks_remaining\<close> in
  \<^verbatim>\<open>FinishTask\<close>, has the wrap-around modulo \<open>2 ^ 64\<close> written out.
  A dereference of a null \<^verbatim>\<open>unique_ptr\<close> or \<^verbatim>\<open>optional_ptr\<close> and an index outside a
  \<^verbatim>\<open>vector\<close> are branches of the model that return an error.
\<close>

datatype WindowGroupStage = SINK | FINALIZE | GETDATA | DONE

text \<open>The numeric value of the enumerators (\<^verbatim>\<open>enum WindowGroupStage : uint8_t\<close>).\<close>

fun stage_rank :: "WindowGroupStage \<Rightarrow> nat" where
  "stage_rank SINK = 0"
| "stage_rank FINALIZE = 1"
| "stage_rank GETDATA = 2"
| "stage_rank DONE = 3"

datatype error =
    NullDereference
  | OutOfRange
  | DivisionByZero
  | InternalException
  | ExecutorError

text \<open>
  A \<^verbatim>\<open>RowDataCollection\<close>, as far as this file reads it: its \<^verbatim>\<open>count\<close> and its vector of
  blocks, each block given by the number of rows it holds.
\<close>

record RowDataCollection =
  rdc_count :: nat
  rdc_blocks :: "nat list"

text \<open>
  The sorter's side of a hash bin (\<^verbatim>\<open>PartitionGlobalHashGroup\<close>): its row count, and of its
  \<^verbatim>\<open>global_sort\<close> the \<^verbatim>\<open>external\<close> flag and the sorted blocks, each with the data blocks and
  heap blocks of its payload.
\<close>

record SortedBlock =
  data_blocks :: "nat list"
  heap_blocks :: "nat list"

record GlobalSortState =
  gss_external :: bool
  sorted_blocks :: "SortedBlock list"

record PartitionGlobalHashGroup =
  hg_count :: nat
  global_sort :: GlobalSortState

text \<open>
  \<^verbatim>\<open>class WindowHashGroup\<close>.  The member \<^verbatim>\<open>external\<close> has no initialiser: it is \<open>None\<close>
  until the constructor assigns it.  The masks, the layout, the mutex and the Executor
  states are not read by any operation below and are left out.
\<close>

record WindowHashGroup =
  hash_group :: "PartitionGlobalHashGroup option"
  count :: nat
  blocks :: nat
  rows :: "RowDataCollection option"
  heap :: "RowDataCollection option"
  external :: "bool option"
  hash_bin :: nat
  sunk :: nat
  finalized :: nat
  tasks_remaining :: nat
  batch_base :: nat

text \<open>\<^verbatim>\<open>WindowHashGroup::GetStage\<close>, with its two successive assignments to \<^verbatim>\<open>result\<close>.\<close>

definition GetStage :: "WindowHashGroup \<Rightarrow> WindowGroupStage" where
  "GetStage g =
     (let result = SINK;
          result = (if sunk g = count g then FINALIZE else result);
          result = (if finalized g = blocks g then GETDATA else result)
      in result)"

text \<open>
  \<^verbatim>\<open>class WindowPartitionGlobalSinkState\<close> with the members of its base class
  \<^verbatim>\<open>PartitionGlobalSinkState\<close> that this file reads.
\<close>

record WindowPartitionGlobalSinkState =
  gp_count :: nat
  gp_rows :: "RowDataCollection option"
  gp_strings :: "RowDataCollection option"
  gp_external :: bool
  hash_groups :: "PartitionGlobalHashGroup option list"
  window_hash_groups :: "WindowHashGroup option list"

subsection \<open>Constructing a hash group\<close>

text \<open>
  \<^verbatim>\<open>WindowHashGroup::MaterializeSortedData\<close>.  \<^verbatim>\<open>sd.data_blocks[0]\<close> on an empty vector is
  the error branch; \<^verbatim>\<open>hash_group.reset()\<close> happens only when there are heap blocks.
\<close>

definition MaterializeSortedData :: "WindowHashGroup \<Rightarrow> error + WindowHashGroup" where
  "MaterializeSortedData g =
     (case hash_group g of
        None \<Rightarrow> Inl NullDereference
      | Some hg \<Rightarrow>
          (case sorted_blocks (global_sort hg) of
             [] \<Rightarrow> Inr g
           | sb # _ \<Rightarrow>
               (case data_blocks sb of
                  [] \<Rightarrow> Inl OutOfRange
                | _ # _ \<Rightarrow>
                    Inr (g\<lparr>rows := Some \<lparr>rdc_count = sum_list (data_blocks sb),
                                          rdc_blocks = data_blocks sb\<rparr>,
                           heap := Some \<lparr>rdc_count = sum_list (heap_blocks sb),
                                          rdc_blocks = heap_blocks sb\<rparr>,
                           hash_group := (if heap_blocks sb \<noteq> [] then None else hash_group g)\<rparr>))))"

text \<open>
  \<^verbatim>\<open>WindowHashGroup::WindowHashGroup(gstate, hash_bin_p)\<close>.  The result is the new group and
  the global partition, whose slot \<^verbatim>\<open>hash_groups[hash_bin]\<close> is moved from in the hashed case.
  \<^verbatim>\<open>RowDataCollectionScanner::AlignHeapBlocks\<close> is not part of this file: the parameter
  \<open>align\<close> gives the row and heap collections it leaves in \<^verbatim>\<open>rows\<close> and \<^verbatim>\<open>heap\<close>.
  \<open>new_WindowHashGroup\<close> is the member initialiser list, \<open>WindowHashGroup_scan\<close> the part of
  the body from \<^verbatim>\<open>external = gpart.external\<close> on (the body returns before it when the bin
  has neither a hash group nor the unpartitioned rows), and \<open>set_blocks\<close> its last statement.
\<close>

definition new_WindowHashGroup :: "nat \<Rightarrow> WindowHashGroup" where
  "new_WindowHashGroup hash_bin_p =
     \<lparr>hash_group = None, count = 0, blocks = 0, rows = None, heap = None, external = None,
      hash_bin = hash_bin_p, sunk = 0, finalized = 0, tasks_remaining = 0, batch_base = 0\<rparr>"

definition set_blocks :: "WindowHashGroup \<Rightarrow> WindowHashGroup" where
  "set_blocks g = (case rows g of None \<Rightarrow> g | Some r \<Rightarrow> g\<lparr>blocks := length (rdc_blocks r)\<rparr>)"

definition WindowHashGroup_scan ::
  "(RowDataCollection \<Rightarrow> RowDataCollection \<Rightarrow> RowDataCollection \<times> RowDataCollection) \<Rightarrow>
   WindowPartitionGlobalSinkState \<Rightarrow> WindowHashGroup \<Rightarrow>
   error + (WindowHashGroup \<times> WindowPartitionGlobalSinkState)" where
  "WindowHashGroup_scan align gpart g0 =
     (let g = g0\<lparr>external := Some (gp_external gpart)\<rparr> in
      if gp_rows gpart \<noteq> None \<and> hash_bin g = 0 then
        (case (gp_rows gpart, gp_strings gpart) of
           (Some r, Some s) \<Rightarrow>
             (case align r s of
                (r', h') \<Rightarrow>
                  Inr (set_blocks (g\<lparr>rows := Some r', heap := Some h', external := Some True\<rparr>),
                       gpart))
         | _ \<Rightarrow> Inl NullDereference)
      else if hash_bin g < length (hash_groups gpart) then
        (case hash_groups gpart ! hash_bin g of
           None \<Rightarrow> Inl NullDereference
         | Some hg \<Rightarrow>
             (case MaterializeSortedData
                     (g\<lparr>hash_group := Some hg,
                        external := Some (gss_external (global_sort hg))\<rparr>) of
                Inl e \<Rightarrow> Inl e
              | Inr g' \<Rightarrow>
                  Inr (set_blocks g',
                       gpart\<lparr>hash_groups := (hash_groups gpart)[hash_bin g := None]\<rparr>)))
      else Inr (set_blocks g, gpart))"

definition WindowHashGroup_ctor ::
  "(RowDataCollection \<Rightarrow> RowDataCollection \<Rightarrow> RowDataCollection \<times> RowDataCollection) \<Rightarrow>
   WindowPartitionGlobalSinkState \<Rightarrow> nat \<Rightarrow>
   error + (WindowHashGroup \<times> WindowPartitionGlobalSinkState)" where
  "WindowHashGroup_ctor align gpart hash_bin_p =
     (let g = new_WindowHashGroup hash_bin_p in
      if hash_bin_p < length (hash_groups gpart) \<and> hash_groups gpart ! hash_bin_p \<noteq> None then
        WindowHashGroup_scan align gpart
          (g\<lparr>count := hg_count (the (hash_groups gpart ! hash_bin_p))\<rparr>)
      else if gp_rows gpart \<noteq> None \<and> hash_bin_p = 0 then
        WindowHashGroup_scan align gpart (g\<lparr>count := gp_count gpart\<rparr>)
      else Inr (g, gpart))"

section \<open>The operator: construction, order, Finalize\<close>

text \<open>
  A bound window expression (the window descriptor), as far as the operator reads it: its
  partition keys and its order keys.
\<close>

record BoundWindowExpression =
  partitions :: "string list"
  orders :: "string list"

record PhysicalWindow =
  select_list :: "BoundWindowExpression list"
  order_idx :: nat
  is_order_dependent :: bool

text \<open>
  The loop of \<^verbatim>\<open>PhysicalWindow::PhysicalWindow\<close> over \<^verbatim>\<open>select_list\<close>, from index \<open>i\<close> on:
  the state is \<^verbatim>\<open>(max_orders, order_idx, is_order_dependent)\<close>.
\<close>

fun select_loop ::
  "BoundWindowExpression list \<Rightarrow> nat \<Rightarrow> nat \<times> nat \<times> bool \<Rightarrow> nat \<times> nat \<times> bool" where
  "select_loop [] i st = st"
| "select_loop (bound_window # es) i (max_orders, oidx, dep) =
     (let dep' = (if partitions bound_window = [] \<and> orders bound_window = [] then True else dep)
      in if length (orders bound_window) > max_orders
         then select_loop es (i + 1) (length (orders bound_window), i, dep')
         else select_loop es (i + 1) (max_orders, oidx, dep'))"

definition PhysicalWindow_ctor :: "BoundWindowExpression list \<Rightarrow> PhysicalWindow" where
  "PhysicalWindow_ctor select_list_p =
     (case select_loop select_list_p 0 (0, 0, False) of
        (max_orders, oidx, dep) \<Rightarrow>
          \<lparr>select_list = select_list_p, order_idx = oidx, is_order_dependent = dep\<rparr>)"

datatype OrderPreservationType = NO_ORDER | INSERTION_ORDER | FIXED_ORDER

text \<open>\<^verbatim>\<open>select_list[order_idx]\<close> outside the vector is the error branch.\<close>

definition SupportsBatchIndex :: "PhysicalWindow \<Rightarrow> error + bool" where
  "SupportsBatchIndex op =
     (if order_idx op < length (select_list op)
      then (let wexpr = select_list op ! order_idx op
            in Inr (partitions wexpr = [] \<and> orders wexpr \<noteq> []))
      else Inl OutOfRange)"

definition SourceOrder :: "PhysicalWindow \<Rightarrow> error + OrderPreservationType" where
  "SourceOrder op =
     (case SupportsBatchIndex op of
        Inl e \<Rightarrow> Inl e
      | Inr b \<Rightarrow> Inr (if b then FIXED_ORDER else NO_ORDER))"

datatype SinkFinalizeType = READY | NO_OUTPUT_POSSIBLE | BLOCKED

datatype event = PartitionMergeEvent

text \<open>
  \<^verbatim>\<open>PhysicalWindow::Finalize\<close>.  The events inserted into \<^verbatim>\<open>event\<close> are the list \<open>evs\<close>;
  \<^verbatim>\<open>PartitionGlobalSinkState::HasMergeTasks\<close> is not part of this file and is the
  parameter \<open>HasMergeTasks\<close>.
\<close>

definition PhysicalWindow_Finalize ::
  "(WindowPartitionGlobalSinkState \<Rightarrow> bool) \<Rightarrow> WindowPartitionGlobalSinkState \<Rightarrow> event list \<Rightarrow>
   SinkFinalizeType \<times> event list" where
  "PhysicalWindow_Finalize HasMergeTasks gp evs =
     (if gp_count gp = 0 then (NO_OUTPUT_POSSIBLE, evs)
      else
        (case gp_rows gp of
           Some r \<Rightarrow> (if rdc_count r \<noteq> 0 then READY else NO_OUTPUT_POSSIBLE, evs)
         | None \<Rightarrow>
             if \<not> HasMergeTasks gp then (NO_OUTPUT_POSSIBLE, evs)
             else (READY, evs @ [PartitionMergeEvent])))"

section \<open>The global source state: tasks and their dispensing\<close>

record Task =
  stage :: WindowGroupStage
  group_idx :: nat
  max_idx :: nat
  begin_idx :: nat
  end_idx :: nat

definition new_Task :: "WindowGroupStage \<Rightarrow> nat \<Rightarrow> nat \<Rightarrow> Task" where
  "new_Task st gi mx = \<lparr>stage = st, group_idx = gi, max_idx = mx, begin_idx = 0, end_idx = 0\<rparr>"

text \<open>
  \<^verbatim>\<open>class WindowGlobalSourceState\<close>.  \<open>global_partition\<close> is \<^verbatim>\<open>gsink.global_partition\<close>,
  which the source state reaches by reference and mutates.  A \<^verbatim>\<open>TaskPtr\<close> points into \<^verbatim>\<open>tasks\<close>: it is the
  index of the task, \<open>None\<close> for the null pointer.  An \<^verbatim>\<open>InterruptState\<close> is named by a number.
\<close>

type_synonym InterruptState = nat

type_synonym TaskPtr = "nat option"

record WindowGlobalSourceState =
  global_partition :: WindowPartitionGlobalSinkState
  tasks :: "Task list"
  next_task :: nat
  stopped :: bool
  returned :: nat
  blocked_tasks :: "InterruptState list"

text \<open>
  \<^verbatim>\<open>*gpart.window_hash_groups[group_idx]\<close>: the group in a slot, an error outside the vector
  and on a null slot.
\<close>

definition deref_group :: "WindowGlobalSourceState \<Rightarrow> nat \<Rightarrow> error + WindowHashGroup" where
  "deref_group gs gi =
     (if gi < length (window_hash_groups (global_partition gs))
      then (case window_hash_groups (global_partition gs) ! gi of
              None \<Rightarrow> Inl NullDereference
            | Some g \<Rightarrow> Inr g)
      else Inl OutOfRange)"

definition set_group ::
  "nat \<Rightarrow> WindowHashGroup option \<Rightarrow> WindowGlobalSourceState \<Rightarrow> WindowGlobalSourceState" where
  "set_group gi slot gs =
     gs\<lparr>global_partition :=
          (global_partition gs)
            \<lparr>window_hash_groups := (window_hash_groups (global_partition gs))[gi := slot]\<rparr>\<rparr>"

text \<open>
  \<^verbatim>\<open>WindowGlobalSourceState::TryNextTask\<close>.  The result is the value returned (or the
  exception), the pointer left in the reference parameter \<^verbatim>\<open>task\<close> and the state.  \<^verbatim>\<open>task\<close>
  is assigned before the group is dereferenced, so it points at the cursor when that throws.
\<close>

definition TryNextTask ::
  "WindowGlobalSourceState \<Rightarrow> (error + bool) \<times> TaskPtr \<times> WindowGlobalSourceState" where
  "TryNextTask gs =
     (if next_task gs \<ge> length (tasks gs) \<or> stopped gs then (Inr True, None, gs)
      else
        (let task = Some (next_task gs) in
         case deref_group gs (group_idx (tasks gs ! next_task gs)) of
           Inl e \<Rightarrow> (Inl e, task, gs)
         | Inr window_hash_group \<Rightarrow>
             (let group_stage = GetStage window_hash_group in
              if stage (tasks gs ! next_task gs) = group_stage
              then (Inr True, task, gs\<lparr>next_task := next_task gs + 1\<rparr>)
              else (Inr False, None, gs))))"

text \<open>The pre-decrement of an \<^verbatim>\<open>atomic<idx_t>\<close>: \<open>0\<close> wraps to \<open>2 ^ 64 - 1\<close>.\<close>

definition dec64 :: "nat \<Rightarrow> nat" where
  "dec64 n = (n + 2 ^ 64 - 1) mod 2 ^ 64"

text \<open>
  \<^verbatim>\<open>WindowGlobalSourceState::FinishTask\<close>.  \<^verbatim>\<open>finished_hash_group.reset()\<close> destroys the group
  and leaves the slot null.  (\<^verbatim>\<open>D_ASSERT\<close> is compiled out of a release build; a null slot
  fails at the dereference that follows it.)
\<close>

definition FinishTask ::
  "TaskPtr \<Rightarrow> WindowGlobalSourceState \<Rightarrow> (error + unit) \<times> WindowGlobalSourceState" where
  "FinishTask task gs =
     (case task of
        None \<Rightarrow> (Inr (), gs)
      | Some ti \<Rightarrow>
          (if ti < length (tasks gs) then
             (let gi = group_idx (tasks gs ! ti) in
              case deref_group gs gi of
                Inl e \<Rightarrow> (Inl e, gs)
              | Inr finished_hash_group \<Rightarrow>
                  (let n = dec64 (tasks_remaining finished_hash_group) in
                   if n = 0 then (Inr (), set_group gi None gs)
                   else (Inr (), set_group gi (Some (finished_hash_group\<lparr>tasks_remaining := n\<rparr>)) gs)))
           else (Inl OutOfRange, gs)))"

section \<open>Constructing the global source state\<close>

text \<open>
  \<^verbatim>\<open>WindowPartitionGlobalSinkState::OnBeginMerge\<close> and \<^verbatim>\<open>OnSortedPartition\<close>.  The calls to the
  base class are outside this file; what is kept is the \<^verbatim>\<open>resize\<close> of \<^verbatim>\<open>window_hash_groups\<close>
  (new slots are null) and the assignment of the new group to its slot.
\<close>

definition resize :: "'a option list \<Rightarrow> nat \<Rightarrow> 'a option list" where
  "resize xs n = take n xs @ replicate (n - length xs) None"

definition OnBeginMerge :: "WindowPartitionGlobalSinkState \<Rightarrow> WindowPartitionGlobalSinkState" where
  "OnBeginMerge gpart =
     gpart\<lparr>window_hash_groups := resize (window_hash_groups gpart) (length (hash_groups gpart))\<rparr>"

definition OnSortedPartition ::
  "(RowDataCollection \<Rightarrow> RowDataCollection \<Rightarrow> RowDataCollection \<times> RowDataCollection) \<Rightarrow>
   WindowPartitionGlobalSinkState \<Rightarrow> nat \<Rightarrow> error + WindowPartitionGlobalSinkState" where
  "OnSortedPartition align gpart gidx =
     (case WindowHashGroup_ctor align gpart gidx of
        Inl e \<Rightarrow> Inl e
      | Inr (g, gpart') \<Rightarrow>
          if gidx < length (window_hash_groups gpart')
          then Inr (gpart'\<lparr>window_hash_groups := (window_hash_groups gpart')[gidx := Some g]\<rparr>)
          else Inl OutOfRange)"

text \<open>
  The loop that assigns \<^verbatim>\<open>batch_base\<close> (the \<^verbatim>\<open>else\<close> branch of the constructor): a null slot
  and a group without \<^verbatim>\<open>rows\<close> are skipped by \<^verbatim>\<open>continue\<close>.
\<close>

fun batch_base_loop :: "nat \<Rightarrow> WindowHashGroup option list \<Rightarrow> WindowHashGroup option list" where
  "batch_base_loop batch_base_v [] = []"
| "batch_base_loop batch_base_v (None # ws) = None # batch_base_loop batch_base_v ws"
| "batch_base_loop batch_base_v (Some g # ws) =
     (case rows g of
        None \<Rightarrow> Some g # batch_base_loop batch_base_v ws
      | Some r \<Rightarrow>
          (let block_count = length (rdc_blocks r)
           in Some (g\<lparr>batch_base := batch_base_v\<rparr>) #
              batch_base_loop (batch_base_v + block_count) ws))"

text \<open>
  The loop that fills \<^verbatim>\<open>partition_blocks\<close>, from slot \<open>gidx\<close> on:
  \<^verbatim>\<open>window_hash_group->rows->blocks.size()\<close> dereferences the slot and its \<^verbatim>\<open>rows\<close>.
\<close>

fun partition_blocks_loop ::
  "WindowHashGroup option list \<Rightarrow> nat \<Rightarrow> error + (nat \<times> nat) list" where
  "partition_blocks_loop [] gidx = Inr []"
| "partition_blocks_loop (None # ws) gidx = Inl NullDereference"
| "partition_blocks_loop (Some g # ws) gidx =
     (case rows g of
        None \<Rightarrow> Inl NullDereference
      | Some r \<Rightarrow>
          (case partition_blocks_loop ws (gidx + 1) of
             Inl e \<Rightarrow> Inl e
           | Inr partition_blocks \<Rightarrow> Inr ((length (rdc_blocks r), gidx) # partition_blocks)))"

text \<open>
  \<^verbatim>\<open>std::sort(..., std::greater<PartitionBlock>())\<close>: descending in the lexicographic order of
  the pairs.  The pairs differ in their second components, so the sorted vector is unique.
\<close>

definition sort_greater :: "(nat \<times> nat) list \<Rightarrow> (nat \<times> nat) list" where
  "sort_greater partition_blocks = rev (sort partition_blocks)"

text \<open>
  The innermost loop, \<^verbatim>\<open>for (Task task(...); task.begin_idx < task.max_idx; task.begin_idx += per_thread)\<close>.
  With \<open>per_thread = 0\<close> and \<open>max_idx > 0\<close> it does not end: the result is \<open>None\<close> then.
\<close>

partial_function (option) task_loop ::
  "nat \<Rightarrow> Task \<Rightarrow> WindowGlobalSourceState \<Rightarrow> (error + WindowGlobalSourceState) option" where
  "task_loop per_thread task gs =
     (if begin_idx task < max_idx task then
        (let task1 = task\<lparr>end_idx := min (begin_idx task + per_thread) (max_idx task)\<rparr>;
             gs1 = gs\<lparr>tasks := tasks gs @ [task1]\<rparr>
         in case deref_group gs1 (group_idx task1) of
              Inl e \<Rightarrow> Some (Inl e)
            | Inr g \<Rightarrow>
                task_loop per_thread (task1\<lparr>begin_idx := begin_idx task1 + per_thread\<rparr>)
                  (set_group (group_idx task1)
                     (Some (g\<lparr>tasks_remaining := tasks_remaining g + 1\<rparr>)) gs1))
      else Some (Inr gs))"

declare task_loop.simps [code]

fun states_loop ::
  "nat \<Rightarrow> nat \<times> nat \<Rightarrow> WindowGroupStage list \<Rightarrow> WindowGlobalSourceState \<Rightarrow>
   (error + WindowGlobalSourceState) option" where
  "states_loop per_thread b [] gs = Some (Inr gs)"
| "states_loop per_thread b (state # states) gs =
     (case task_loop per_thread (new_Task state (snd b) (fst b)) gs of
        None \<Rightarrow> None
      | Some (Inl e) \<Rightarrow> Some (Inl e)
      | Some (Inr gs') \<Rightarrow> states_loop per_thread b states gs')"

fun blocks_loop ::
  "nat \<Rightarrow> (nat \<times> nat) list \<Rightarrow> WindowGroupStage list \<Rightarrow> WindowGlobalSourceState \<Rightarrow>
   (error + WindowGlobalSourceState) option" where
  "blocks_loop per_thread [] states gs = Some (Inr gs)"
| "blocks_loop per_thread (b # partition_blocks) states gs =
     (case states_loop per_thread b states gs of
        None \<Rightarrow> None
      | Some (Inl e) \<Rightarrow> Some (Inl e)
      | Some (Inr gs') \<Rightarrow> blocks_loop per_thread partition_blocks states gs')"

text \<open>
  The first part of \<^verbatim>\<open>WindowGlobalSourceState::WindowGlobalSourceState\<close>: with no hash groups
  (\<^verbatim>\<open>OVER()\<close>) the single group is constructed here when there are row blocks; otherwise
  the groups get their \<^verbatim>\<open>batch_base\<close>.
\<close>

definition collect_groups ::
  "(RowDataCollection \<Rightarrow> RowDataCollection \<Rightarrow> RowDataCollection \<times> RowDataCollection) \<Rightarrow>
   WindowPartitionGlobalSinkState \<Rightarrow> error + WindowPartitionGlobalSinkState" where
  "collect_groups align gpart =
     (if window_hash_groups gpart = [] then
        (case gp_rows gpart of
           None \<Rightarrow> Inr gpart
         | Some r \<Rightarrow>
             if rdc_blocks r \<noteq> [] then
               (case WindowHashGroup_ctor align gpart 0 of
                  Inl e \<Rightarrow> Inl e
                | Inr (g, gpart') \<Rightarrow>
                    Inr (gpart'\<lparr>window_hash_groups := window_hash_groups gpart' @ [Some g]\<rparr>))
             else Inr gpart)
      else Inr (gpart\<lparr>window_hash_groups := batch_base_loop 0 (window_hash_groups gpart)\<rparr>))"

text \<open>
  \<^verbatim>\<open>WindowGlobalSourceState::WindowGlobalSourceState\<close>.  \<open>threads\<close> is
  \<^verbatim>\<open>TaskScheduler::GetScheduler(context).NumberOfThreads()\<close>; the division by it is an error
  when it is zero.  \<open>None\<close>: the constructor does not return; \<open>Some (Inl e)\<close>: it throws.
\<close>

definition WindowGlobalSourceState_ctor ::
  "(RowDataCollection \<Rightarrow> RowDataCollection \<Rightarrow> RowDataCollection \<times> RowDataCollection) \<Rightarrow>
   nat \<Rightarrow> WindowPartitionGlobalSinkState \<Rightarrow> (error + WindowGlobalSourceState) option" where
  "WindowGlobalSourceState_ctor align threads gpart0 =
     (case collect_groups align gpart0 of
        Inl e \<Rightarrow> Some (Inl e)
      | Inr gpart \<Rightarrow>
          (let gs = \<lparr>global_partition = gpart, tasks = [], next_task = 0, stopped = False,
                     returned = 0, blocked_tasks = []\<rparr>
           in if window_hash_groups gpart = [] then Some (Inr gs)
              else
                (case partition_blocks_loop (window_hash_groups gpart) 0 of
                   Inl e \<Rightarrow> Some (Inl e)
                 | Inr partition_blocks \<Rightarrow>
                     (case sort_greater partition_blocks of
                        [] \<Rightarrow> Some (Inl OutOfRange)
                      | max_block # _ \<Rightarrow>
                          if threads = 0 then Some (Inl DivisionByZero)
                          else
                            (let per_thread = (fst max_block + threads - 1) div threads
                             in blocks_loop per_thread (sort_greater partition_blocks)
                                  [SINK, FINALIZE, GETDATA] gs)))))"

section \<open>The local source state: a worker's GetData\<close>

text \<open>
  Modelled from the spec: \<^verbatim>\<open>RowDataCollectionScanner\<close> is not part of this file.  A scanner
  constructed with a block index reads that one block (\<open>sc_total\<close> is the number of its rows),
  \<^verbatim>\<open>Scanned()\<close> is \<open>sc_scanned\<close>, \<^verbatim>\<open>Remaining()\<close> is \<open>sc_total - sc_scanned\<close>, and
  \<^verbatim>\<open>Scan\<close> reads one batch of at most \<open>vsize\<close> rows (the standard vector size).
\<close>

record Scanner =
  sc_block :: nat
  sc_total :: nat
  sc_scanned :: nat
  sc_flush :: bool

definition new_Scanner :: "RowDataCollection \<Rightarrow> nat \<Rightarrow> bool \<Rightarrow> error + Scanner" where
  "new_Scanner r block_idx flush =
     (if block_idx < length (rdc_blocks r)
      then Inr \<lparr>sc_block = block_idx, sc_total = rdc_blocks r ! block_idx, sc_scanned = 0,
                sc_flush = flush\<rparr>
      else Inl OutOfRange)"

definition Remaining :: "Scanner \<Rightarrow> nat" where
  "Remaining sc = sc_total sc - sc_scanned sc"

definition Scan :: "nat \<Rightarrow> Scanner \<Rightarrow> nat \<times> Scanner" where
  "Scan vsize sc =
     (let n = min vsize (Remaining sc) in (n, sc\<lparr>sc_scanned := sc_scanned sc + n\<rparr>))"

text \<open>\<^verbatim>\<open>WindowHashGroup::GetBuildScanner\<close> and \<^verbatim>\<open>GetEvaluateScanner\<close>.\<close>

definition GetBuildScanner :: "WindowHashGroup \<Rightarrow> nat \<Rightarrow> error + Scanner option" where
  "GetBuildScanner g block_idx =
     (case rows g of
        None \<Rightarrow> Inr None
      | Some r \<Rightarrow>
          (case new_Scanner r block_idx False of Inl e \<Rightarrow> Inl e | Inr sc \<Rightarrow> Inr (Some sc)))"

definition GetEvaluateScanner :: "WindowHashGroup \<Rightarrow> nat \<Rightarrow> error + Scanner" where
  "GetEvaluateScanner g block_idx =
     (case rows g of
        None \<Rightarrow> Inl NullDereference
      | Some r \<Rightarrow> new_Scanner r block_idx True)"

text \<open>
  \<^verbatim>\<open>class WindowLocalSourceState\<close>.  \<open>window_hash_group\<close> is an \<^verbatim>\<open>optional_ptr\<close> to a group
  owned by a slot of \<^verbatim>\<open>window_hash_groups\<close>: it is the index of that slot, and a
  dereference fails when the slot has been reset.  The chunks and the Executor states
  are opaque; of a chunk the model keeps its size.
\<close>

record WindowLocalSourceState =
  batch_index :: nat
  task :: TaskPtr
  window_hash_group :: "nat option"
  scanner :: "Scanner option"

definition new_WindowLocalSourceState :: WindowLocalSourceState where
  "new_WindowLocalSourceState =
     \<lparr>batch_index = 0, task = None, window_hash_group = None, scanner = None\<rparr>"

text \<open>
  The collaborators that are outside this file: the standard vector size, and for each
  call into the Executors (stage, group, block) whether one of them throws.
\<close>

record Collaborators =
  vector_size :: nat
  executor_throws :: "WindowGroupStage \<Rightarrow> nat \<Rightarrow> nat \<Rightarrow> bool"

definition deref_task :: "WindowGlobalSourceState \<Rightarrow> TaskPtr \<Rightarrow> error + Task" where
  "deref_task gs tp =
     (case tp of
        None \<Rightarrow> Inl NullDereference
      | Some ti \<Rightarrow> if ti < length (tasks gs) then Inr (tasks gs ! ti) else Inl OutOfRange)"

definition set_begin_idx :: "nat \<Rightarrow> nat \<Rightarrow> WindowGlobalSourceState \<Rightarrow> WindowGlobalSourceState" where
  "set_begin_idx ti b gs = gs\<lparr>tasks := (tasks gs)[ti := (tasks gs ! ti)\<lparr>begin_idx := b\<rparr>]\<rparr>"

text \<open>
  \<^verbatim>\<open>WindowLocalSourceState::BeginHashGroup\<close>: \<^verbatim>\<open>.get()\<close> of the slot, then
  \<^verbatim>\<open>window_hash_group->Initialize(gsink)\<close>, which throws on a null pointer.
\<close>

definition BeginHashGroup ::
  "WindowLocalSourceState \<Rightarrow> WindowGlobalSourceState \<Rightarrow> (error + unit) \<times> WindowLocalSourceState" where
  "BeginHashGroup ls gs =
     (case task ls of
        None \<Rightarrow> (Inr (), ls)
      | Some ti \<Rightarrow>
          (case deref_task gs (Some ti) of
             Inl e \<Rightarrow> (Inl e, ls)
           | Inr t \<Rightarrow>
               if group_idx t < length (window_hash_groups (global_partition gs)) then
                 (case window_hash_groups (global_partition gs) ! group_idx t of
                    None \<Rightarrow> (Inl NullDereference, ls\<lparr>window_hash_group := None\<rparr>)
                  | Some g \<Rightarrow> (Inr (), ls\<lparr>window_hash_group := Some (group_idx t)\<rparr>))
               else (Inl OutOfRange, ls)))"

text \<open>\<^verbatim>\<open>WindowLocalSourceState::FinishHashGroup\<close>.\<close>

definition FinishHashGroup ::
  "TaskPtr \<Rightarrow> WindowLocalSourceState \<Rightarrow> WindowGlobalSourceState \<Rightarrow>
   (error + unit) \<times> WindowLocalSourceState \<times> WindowGlobalSourceState" where
  "FinishHashGroup prev_task ls gs =
     (case FinishTask prev_task gs of (r, gs') \<Rightarrow> (r, ls\<lparr>scanner := None\<rparr>, gs'))"

text \<open>
  The \<^verbatim>\<open>while (true)\<close> loop of \<^verbatim>\<open>WindowLocalSourceState::Sink\<close> over the batches of one
  block: it ends at the first empty batch.
\<close>

function sink_scan ::
  "Collaborators \<Rightarrow> nat \<Rightarrow> Scanner \<Rightarrow> WindowGlobalSourceState \<Rightarrow>
   (error + unit) \<times> Scanner \<times> WindowGlobalSourceState" where
  "sink_scan X gi sc gs =
     (if min (vector_size X) (Remaining sc) = 0 then (Inr (), snd (Scan (vector_size X) sc), gs)
      else if executor_throws X SINK gi (sc_block sc)
      then (Inl ExecutorError, snd (Scan (vector_size X) sc), gs)
      else
        (case deref_group gs gi of
           Inl e \<Rightarrow> (Inl e, snd (Scan (vector_size X) sc), gs)
         | Inr g \<Rightarrow>
             sink_scan X gi (snd (Scan (vector_size X) sc))
               (set_group gi (Some (g\<lparr>sunk := sunk g + fst (Scan (vector_size X) sc)\<rparr>)) gs)))"
  by pat_completeness auto

termination
  by (relation "measure (\<lambda>(X, gi, sc, gs). Remaining sc)")
     (auto simp: Scan_def Remaining_def Let_def)

text \<open>
  The \<^verbatim>\<open>for\<close> loop of \<^verbatim>\<open>Sink\<close> over the blocks \<open>begin_idx, ..., end_idx - 1\<close> of the task, given
  as the list of the block indexes still to do; \<^verbatim>\<open>++task->begin_idx\<close> ends each round.
  A null build scanner (a group without rows) breaks out of the loop.
\<close>

fun sink_blocks ::
  "Collaborators \<Rightarrow> nat \<Rightarrow> nat \<Rightarrow> nat list \<Rightarrow> WindowLocalSourceState \<Rightarrow> WindowGlobalSourceState \<Rightarrow>
   (error + unit) \<times> WindowLocalSourceState \<times> WindowGlobalSourceState" where
  "sink_blocks X ti gi [] ls gs = (Inr (), ls, gs)"
| "sink_blocks X ti gi (b # bs) ls gs =
     (case deref_group gs gi of
        Inl e \<Rightarrow> (Inl e, ls, gs)
      | Inr g \<Rightarrow>
          (case GetBuildScanner g b of
             Inl e \<Rightarrow> (Inl e, ls, gs)
           | Inr None \<Rightarrow> (Inr (), ls\<lparr>scanner := None\<rparr>, gs)
           | Inr (Some sc) \<Rightarrow>
               (case sink_scan X gi sc gs of
                  (Inl e, sc', gs') \<Rightarrow> (Inl e, ls\<lparr>scanner := Some sc'\<rparr>, gs')
                | (Inr u, sc', gs') \<Rightarrow>
                    sink_blocks X ti gi bs (ls\<lparr>scanner := None\<rparr>) (set_begin_idx ti (b + 1) gs'))))"

text \<open>
  \<^verbatim>\<open>WindowLocalSourceState::Sink\<close>.  The reference \<^verbatim>\<open>window_hash_group->gestates\<close> at its head
  throws on a null pointer.
\<close>

definition LocalSource_Sink ::
  "Collaborators \<Rightarrow> WindowLocalSourceState \<Rightarrow> WindowGlobalSourceState \<Rightarrow>
   (error + unit) \<times> WindowLocalSourceState \<times> WindowGlobalSourceState" where
  "LocalSource_Sink X ls gs =
     (case window_hash_group ls of
        None \<Rightarrow> (Inl NullDereference, ls, gs)
      | Some gi \<Rightarrow>
          (case deref_task gs (task ls) of
             Inl e \<Rightarrow> (Inl e, ls, gs)
           | Inr t \<Rightarrow> sink_blocks X (the (task ls)) gi [begin_idx t..<end_idx t] ls gs))"

text \<open>
  \<^verbatim>\<open>WindowLocalSourceState::Finalize\<close>.  (Every task the constructor builds has
  \<^verbatim>\<open>begin_idx <= end_idx\<close>, so the difference added to \<^verbatim>\<open>finalized\<close> does not wrap.)
\<close>

definition LocalSource_Finalize ::
  "Collaborators \<Rightarrow> WindowLocalSourceState \<Rightarrow> WindowGlobalSourceState \<Rightarrow>
   (error + unit) \<times> WindowLocalSourceState \<times> WindowGlobalSourceState" where
  "LocalSource_Finalize X ls gs =
     (case window_hash_group ls of
        None \<Rightarrow> (Inl NullDereference, ls, gs)
      | Some gi \<Rightarrow>
          (case deref_task gs (task ls) of
             Inl e \<Rightarrow> (Inl e, ls, gs)
           | Inr t \<Rightarrow>
               if executor_throws X FINALIZE gi (begin_idx t) then (Inl ExecutorError, ls, gs)
               else
                 (case deref_group gs gi of
                    Inl e \<Rightarrow> (Inl e, ls, gs)
                  | Inr g \<Rightarrow>
                      (Inr (), ls,
                       set_begin_idx (the (task ls)) (end_idx t)
                         (set_group gi
                            (Some (g\<lparr>finalized := finalized g + (end_idx t - begin_idx t)\<rparr>)) gs)))))"

text \<open>
  The condition of the outer \<^verbatim>\<open>while\<close> loop of \<^verbatim>\<open>WindowLocalSourceState::GetData\<close>:
  \<^verbatim>\<open>!task || task->begin_idx >= task->end_idx || task->stage != WindowGroupStage::GETDATA\<close>.
\<close>

definition task_exhausted :: "WindowLocalSourceState \<Rightarrow> WindowGlobalSourceState \<Rightarrow> error + bool" where
  "task_exhausted ls gs =
     (case task ls of
        None \<Rightarrow> Inr True
      | Some ti \<Rightarrow>
          (case deref_task gs (Some ti) of
             Inl e \<Rightarrow> Inl e
           | Inr t \<Rightarrow> Inr (begin_idx t \<ge> end_idx t \<or> stage t \<noteq> GETDATA)))"

text \<open>
  \<^verbatim>\<open>new_group\<close>, and the release of the old group and the start of the new one that it
  guards.
\<close>

definition is_new_group :: "WindowGlobalSourceState \<Rightarrow> TaskPtr \<Rightarrow> TaskPtr \<Rightarrow> error + bool" where
  "is_new_group gs tp prev_task =
     (case (tp, prev_task) of
        (Some ti, Some pi) \<Rightarrow>
          (case (deref_task gs (Some ti), deref_task gs (Some pi)) of
             (Inr t, Inr p) \<Rightarrow> Inr (group_idx t \<noteq> group_idx p)
           | (Inl e, _) \<Rightarrow> Inl e
           | (_, Inl e) \<Rightarrow> Inl e)
      | _ \<Rightarrow> Inr True)"

definition change_group ::
  "TaskPtr \<Rightarrow> WindowLocalSourceState \<Rightarrow> WindowGlobalSourceState \<Rightarrow>
   (error + unit) \<times> WindowLocalSourceState \<times> WindowGlobalSourceState" where
  "change_group prev_task ls gs =
     (case is_new_group gs (task ls) prev_task of
        Inl e \<Rightarrow> (Inl e, ls, gs)
      | Inr False \<Rightarrow> (Inr (), ls, gs)
      | Inr True \<Rightarrow>
          (case FinishHashGroup prev_task ls gs of
             (Inl e, ls1, gs1) \<Rightarrow> (Inl e, ls1, gs1)
           | (Inr u, ls1, gs1) \<Rightarrow>
               (case BeginHashGroup ls1 gs1 of (r, ls2) \<Rightarrow> (r, ls2, gs1))))"

text \<open>
  The outer \<^verbatim>\<open>while\<close> loop of \<^verbatim>\<open>GetData\<close>.  It ends by one of its \<^verbatim>\<open>return\<close> statements, by
  an exception, or by its condition (then the function goes on to evaluate a block).
\<close>

datatype loop_exit = Return bool | Proceed

text \<open>
  One evaluation of the loop condition and, when it holds, one round of the body:
  \<open>Inl\<close> when the loop is left (with how it is left), \<open>Inr\<close> when the body reaches its end
  or a \<^verbatim>\<open>continue\<close>, with the state the next round starts from.
\<close>

definition GetData_round ::
  "Collaborators \<Rightarrow> WindowLocalSourceState \<Rightarrow> WindowGlobalSourceState \<Rightarrow>
   ((error + loop_exit) \<times> WindowLocalSourceState \<times> WindowGlobalSourceState) +
   (WindowLocalSourceState \<times> WindowGlobalSourceState)" where
  "GetData_round X ls gs =
     (case task_exhausted ls gs of
        Inl e \<Rightarrow> Inl (Inl e, ls, gs)
      | Inr False \<Rightarrow> Inl (Inr Proceed, ls, gs)
      | Inr True \<Rightarrow>
          (let prev_task = task ls in
           case TryNextTask gs of
             (Inl e, tp, gs1) \<Rightarrow> Inl (Inl e, ls\<lparr>task := tp\<rparr>, gs1)
           | (Inr False, tp, gs1) \<Rightarrow>
               (case FinishHashGroup prev_task (ls\<lparr>task := tp\<rparr>) gs1 of
                  (Inl e, ls2, gs2) \<Rightarrow> Inl (Inl e, ls2, gs2)
                | (Inr u, ls2, gs2) \<Rightarrow> Inl (Inr (Return False), ls2, gs2))
           | (Inr True, tp, gs1) \<Rightarrow>
               (case change_group prev_task (ls\<lparr>task := tp\<rparr>) gs1 of
                  (Inl e, ls2, gs2) \<Rightarrow> Inl (Inl e, ls2, gs2)
                | (Inr u, ls2, gs2) \<Rightarrow>
                    (case task ls2 of
                       None \<Rightarrow> Inl (Inr (Return True), ls2, gs2)
                     | Some ti \<Rightarrow>
                         (case deref_task gs2 (Some ti) of
                            Inl e \<Rightarrow> Inl (Inl e, ls2, gs2)
                          | Inr t \<Rightarrow>
                              (case stage t of
                                 SINK \<Rightarrow>
                                   (case LocalSource_Sink X ls2 gs2 of
                                      (Inl e, ls3, gs3) \<Rightarrow> Inl (Inl e, ls3, gs3)
                                    | (Inr u, ls3, gs3) \<Rightarrow> Inr (ls3, gs3))
                               | FINALIZE \<Rightarrow>
                                   (case LocalSource_Finalize X ls2 gs2 of
                                      (Inl e, ls3, gs3) \<Rightarrow> Inl (Inl e, ls3, gs3)
                                    | (Inr u, ls3, gs3) \<Rightarrow> Inr (ls3, gs3))
                               | GETDATA \<Rightarrow> Inr (ls2, gs2)
                               | DONE \<Rightarrow> Inl (Inl InternalException, ls2, gs2)))))))"

partial_function (option) GetData_loop ::
  "Collaborators \<Rightarrow> WindowLocalSourceState \<Rightarrow> WindowGlobalSourceState \<Rightarrow>
   ((error + loop_exit) \<times> WindowLocalSourceState \<times> WindowGlobalSourceState) option" where
  "GetData_loop X ls gs =
     (case GetData_round X ls gs of
        Inl r \<Rightarrow> Some r
      | Inr (ls', gs') \<Rightarrow> GetData_loop X ls' gs')"

declare GetData_loop.simps [code]

text \<open>
  The head of \<^verbatim>\<open>GetData\<close>: an exhausted scanner is dropped and the task moves to its next
  block.
\<close>

definition drop_exhausted_scanner ::
  "WindowLocalSourceState \<Rightarrow> WindowGlobalSourceState \<Rightarrow>
   (error + unit) \<times> WindowLocalSourceState \<times> WindowGlobalSourceState" where
  "drop_exhausted_scanner ls gs =
     (case scanner ls of
        None \<Rightarrow> (Inr (), ls, gs)
      | Some sc \<Rightarrow>
          if Remaining sc = 0 then
            (case deref_task gs (task ls) of
               Inl e \<Rightarrow> (Inl e, ls\<lparr>scanner := None\<rparr>, gs)
             | Inr t \<Rightarrow>
                 (Inr (), ls\<lparr>scanner := None\<rparr>, set_begin_idx (the (task ls)) (begin_idx t + 1) gs))
          else (Inr (), ls, gs))"

text \<open>
  The tail of \<^verbatim>\<open>GetData\<close>, after the loop: the evaluate scanner is opened on
  \<^verbatim>\<open>task->begin_idx\<close> when there is none, which is where \<^verbatim>\<open>batch_index\<close> is assigned; one
  batch is scanned and evaluated.  The result carries the size of the chunk returned.
\<close>

definition open_scanner ::
  "WindowLocalSourceState \<Rightarrow> WindowGlobalSourceState \<Rightarrow> error + WindowLocalSourceState" where
  "open_scanner ls gs =
     (case scanner ls of
        Some sc \<Rightarrow> Inr ls
      | None \<Rightarrow>
          (case window_hash_group ls of
             None \<Rightarrow> Inl NullDereference
           | Some gi \<Rightarrow>
               (case (deref_group gs gi, deref_task gs (task ls)) of
                  (Inr g, Inr t) \<Rightarrow>
                    (case GetEvaluateScanner g (begin_idx t) of
                       Inl e \<Rightarrow> Inl e
                     | Inr sc \<Rightarrow>
                         Inr (ls\<lparr>scanner := Some sc,
                                 batch_index := batch_base g + begin_idx t\<rparr>))
                | (Inl e, _) \<Rightarrow> Inl e
                | (_, Inl e) \<Rightarrow> Inl e)))"

definition evaluate_block ::
  "Collaborators \<Rightarrow> nat \<Rightarrow> WindowLocalSourceState \<Rightarrow> WindowGlobalSourceState \<Rightarrow>
   (error + bool) \<times> nat \<times> WindowLocalSourceState \<times> WindowGlobalSourceState" where
  "evaluate_block X chunk ls gs =
     (case open_scanner ls gs of
        Inl e \<Rightarrow> (Inl e, chunk, ls, gs)
      | Inr ls1 \<Rightarrow>
          (case scanner ls1 of
             None \<Rightarrow> (Inl NullDereference, chunk, ls1, gs)
           | Some sc \<Rightarrow>
               (case Scan (vector_size X) sc of
                  (n, sc') \<Rightarrow>
                    (let ls2 = ls1\<lparr>scanner := Some sc'\<rparr> in
                     case window_hash_group ls2 of
                       None \<Rightarrow> (Inl NullDereference, chunk, ls2, gs)
                     | Some gi \<Rightarrow>
                         if executor_throws X GETDATA gi (sc_block sc)
                         then (Inl ExecutorError, chunk, ls2, gs)
                         else (Inr True, n, ls2, gs)))))"

text \<open>
  \<^verbatim>\<open>WindowLocalSourceState::GetData\<close>.  \<open>chunk\<close> is the size of the result chunk on entry; a
  \<^verbatim>\<open>return\<close> from inside the loop leaves the chunk as it is.  \<open>None\<close>: the call does not
  return.
\<close>

definition LocalSource_GetData ::
  "Collaborators \<Rightarrow> nat \<Rightarrow> WindowLocalSourceState \<Rightarrow> WindowGlobalSourceState \<Rightarrow>
   ((error + bool) \<times> nat \<times> WindowLocalSourceState \<times> WindowGlobalSourceState) option" where
  "LocalSource_GetData X chunk ls gs =
     (case drop_exhausted_scanner ls gs of
        (Inl e, ls1, gs1) \<Rightarrow> Some (Inl e, chunk, ls1, gs1)
      | (Inr u, ls1, gs1) \<Rightarrow>
          (case GetData_loop X ls1 gs1 of
             None \<Rightarrow> None
           | Some (Inl e, ls2, gs2) \<Rightarrow> Some (Inl e, chunk, ls2, gs2)
           | Some (Inr (Return b), ls2, gs2) \<Rightarrow> Some (Inr b, chunk, ls2, gs2)
           | Some (Inr Proceed, ls2, gs2) \<Rightarrow> Some (evaluate_block X chunk ls2 gs2)))"

section \<open>The operator's GetData\<close>

text \<open>
  \<^verbatim>\<open>WindowGlobalSourceState::UpdateBlockedTasks\<close>: the value returned, the interrupt states
  whose \<^verbatim>\<open>Callback\<close> was called, and the state.
\<close>

definition UpdateBlockedTasks ::
  "bool \<Rightarrow> InterruptState \<Rightarrow> WindowGlobalSourceState \<Rightarrow>
   bool \<times> InterruptState list \<times> WindowGlobalSourceState" where
  "UpdateBlockedTasks blocked interrupt_state gs =
     (if blocked then (blocked, [], gs\<lparr>blocked_tasks := blocked_tasks gs @ [interrupt_state]\<rparr>)
      else (blocked, blocked_tasks gs, gs\<lparr>blocked_tasks := []\<rparr>))"

datatype SourceResultType = HAVE_MORE_OUTPUT | FINISHED | SOURCE_BLOCKED

text \<open>
  The loop \<^verbatim>\<open>while (!lsource.GetData(chunk)) { YieldThread(); }\<close> of the variant that is
  compiled (\<^verbatim>\<open>#if 1\<close>).  What the other threads do to the shared state while this one
  yields for the \<open>n\<close>-th time is the parameter \<open>yield n\<close>.  The loop need not end.
\<close>

partial_function (option) yield_loop ::
  "Collaborators \<Rightarrow> (nat \<Rightarrow> WindowGlobalSourceState \<Rightarrow> WindowGlobalSourceState) \<Rightarrow> nat \<Rightarrow> nat \<Rightarrow>
   WindowLocalSourceState \<Rightarrow> WindowGlobalSourceState \<Rightarrow>
   ((error + unit) \<times> nat \<times> WindowLocalSourceState \<times> WindowGlobalSourceState) option" where
  "yield_loop X yield n chunk ls gs =
     (case LocalSource_GetData X chunk ls gs of
        None \<Rightarrow> None
      | Some (Inl e, chunk', ls', gs') \<Rightarrow> Some (Inl e, chunk', ls', gs')
      | Some (Inr r, chunk', ls', gs') \<Rightarrow>
          if r then Some (Inr (), chunk', ls', gs')
          else yield_loop X yield (n + 1) chunk' ls' (yield n gs'))"

declare yield_loop.simps [code]

text \<open>
  \<^verbatim>\<open>PhysicalWindow::GetData\<close> as compiled: the \<^verbatim>\<open>catch (...)\<close> handler sets \<^verbatim>\<open>stopped\<close> and
  rethrows.
\<close>

definition PhysicalWindow_GetData ::
  "Collaborators \<Rightarrow> (nat \<Rightarrow> WindowGlobalSourceState \<Rightarrow> WindowGlobalSourceState) \<Rightarrow> nat \<Rightarrow>
   WindowLocalSourceState \<Rightarrow> WindowGlobalSourceState \<Rightarrow>
   ((error + SourceResultType) \<times> nat \<times> WindowLocalSourceState \<times> WindowGlobalSourceState) option" where
  "PhysicalWindow_GetData X yield chunk ls gs =
     (case yield_loop X yield 0 chunk ls gs of
        None \<Rightarrow> None
      | Some (Inl e, chunk', ls', gs') \<Rightarrow> Some (Inl e, chunk', ls', gs'\<lparr>stopped := True\<rparr>)
      | Some (Inr u, chunk', ls', gs') \<Rightarrow>
          Some (Inr (if chunk' = 0 then FINISHED else HAVE_MORE_OUTPUT), chunk', ls',
                gs'\<lparr>returned := returned gs' + chunk'\<rparr>))"

text \<open>
  The variant under \<^verbatim>\<open>#else\<close>, which is not compiled: one call of the worker, the blocked
  task queue, and in the handler the flush of the queue.  Its result has the interrupt
  states called back as well.
\<close>

definition PhysicalWindow_GetData_else ::
  "Collaborators \<Rightarrow> InterruptState \<Rightarrow> nat \<Rightarrow> WindowLocalSourceState \<Rightarrow> WindowGlobalSourceState \<Rightarrow>
   ((error + SourceResultType) \<times> InterruptState list \<times> nat \<times> WindowLocalSourceState \<times>
    WindowGlobalSourceState) option" where
  "PhysicalWindow_GetData_else X interrupt_state chunk ls gs =
     (case LocalSource_GetData X chunk ls gs of
        None \<Rightarrow> None
      | Some (Inl e, chunk', ls', gs') \<Rightarrow>
          (case UpdateBlockedTasks False interrupt_state (gs'\<lparr>stopped := True\<rparr>) of
             (b, woken, gs'') \<Rightarrow> Some (Inl e, woken, chunk', ls', gs''))
      | Some (Inr r, chunk', ls', gs') \<Rightarrow>
          (case UpdateBlockedTasks (\<not> r) interrupt_state gs' of
             (b, woken, gs'') \<Rightarrow>
               if b then Some (Inr SOURCE_BLOCKED, woken, chunk', ls', gs'')
               else Some (Inr (if chunk' = 0 then FINISHED else HAVE_MORE_OUTPUT), woken, chunk', ls',
                          gs''\<lparr>returned := returned gs'' + chunk'\<rparr>)))"


section \<open>Definitions in the words of the specification, and invariants\<close>

text \<open>
  \<open>\<lceil>b / p\<rceil>\<close> on the natural numbers, written as the code writes it.
\<close>

definition ceil_div :: "nat \<Rightarrow> nat \<Rightarrow> nat" where
  "ceil_div b p = (b + p - 1) div p"

text \<open>
  The task list as the specification describes it.  The \<open>k\<close>-th task of one stage of a
  group with \<open>b\<close> blocks and stride \<open>p\<close> starts at block \<open>k * p\<close> and ends before block
  \<open>min (k * p + p) b\<close>; a stage has \<open>\<lceil>b / p\<rceil>\<close> tasks; a group has the tasks of the stages
  SINK, FINALIZE, GETDATA in that order.  \<open>pb\<close> is a pair (block count, group index).
\<close>

definition mk_task :: "WindowGroupStage \<Rightarrow> nat \<Rightarrow> nat \<Rightarrow> nat \<Rightarrow> nat \<Rightarrow> Task" where
  "mk_task st gi b p k =
     \<lparr>stage = st, group_idx = gi, max_idx = b, begin_idx = k * p, end_idx = min (k * p + p) b\<rparr>"

definition stage_tasks :: "WindowGroupStage \<Rightarrow> nat \<Rightarrow> nat \<Rightarrow> nat \<Rightarrow> Task list" where
  "stage_tasks st gi b p = map (mk_task st gi b p) [0..<ceil_div b p]"

definition group_tasks :: "nat \<Rightarrow> nat \<times> nat \<Rightarrow> Task list" where
  "group_tasks p pb =
     concat (map (\<lambda>st. stage_tasks st (snd pb) (fst pb) p) [SINK, FINALIZE, GETDATA])"

text \<open>
  A slot of \<^verbatim>\<open>window_hash_groups\<close> is populated when it holds a group whose \<^verbatim>\<open>rows\<close> are not
  null.  The block count of a slot is \<^verbatim>\<open>rows->blocks.size()\<close>, and \<open>0\<close> where there are no rows.
\<close>

definition populated :: "WindowHashGroup option \<Rightarrow> bool" where
  "populated w = (case w of None \<Rightarrow> False | Some g \<Rightarrow> rows g \<noteq> None)"

definition block_count :: "WindowHashGroup option \<Rightarrow> nat" where
  "block_count w =
     (case w of
        None \<Rightarrow> 0
      | Some g \<Rightarrow> (case rows g of None \<Rightarrow> 0 | Some r \<Rightarrow> length (rdc_blocks r)))"

text \<open>
  The pairs (block count, group index) of all the slots, and the stride
  \<open>\<lceil>M / T\<rceil>\<close> for \<open>T\<close> threads, \<open>M\<close> being the largest block count.
\<close>

definition partition_blocks_of :: "WindowHashGroup option list \<Rightarrow> (nat \<times> nat) list" where
  "partition_blocks_of whg = zip (map block_count whg) [0..<length whg]"

definition per_thread_of :: "nat \<Rightarrow> WindowHashGroup option list \<Rightarrow> nat" where
  "per_thread_of threads whg = ceil_div (Max (set (map block_count whg))) threads"

text \<open>
  What emitting tasks does to the state: \<open>bump gi n\<close> adds \<open>n\<close> to \<^verbatim>\<open>tasks_remaining\<close> of
  the group in slot \<open>gi\<close>, \<open>bump_all\<close> does so for every group with three times its number of
  tasks per stage, and \<open>emitted ts f\<close> appends the tasks \<open>ts\<close> and applies \<open>f\<close> to the groups.
\<close>

definition bump :: "nat \<Rightarrow> nat \<Rightarrow> WindowHashGroup option list \<Rightarrow> WindowHashGroup option list" where
  "bump gi n whg =
     whg[gi := map_option (\<lambda>g. g\<lparr>tasks_remaining := tasks_remaining g + n\<rparr>) (whg ! gi)]"

definition bump_all ::
  "nat \<Rightarrow> (nat \<times> nat) list \<Rightarrow> WindowHashGroup option list \<Rightarrow> WindowHashGroup option list" where
  "bump_all p pbs whg = fold (\<lambda>pb. bump (snd pb) (3 * ceil_div (fst pb) p)) pbs whg"

definition emitted ::
  "Task list \<Rightarrow> (WindowHashGroup option list \<Rightarrow> WindowHashGroup option list) \<Rightarrow>
   WindowGlobalSourceState \<Rightarrow> WindowGlobalSourceState" where
  "emitted ts f gs =
     gs\<lparr>tasks := tasks gs @ ts,
        global_partition :=
          (global_partition gs)\<lparr>window_hash_groups := f (window_hash_groups (global_partition gs))\<rparr>\<rparr>"

text \<open>
  The source state before any task is emitted.
\<close>

abbreviation initial_source :: "WindowPartitionGlobalSinkState \<Rightarrow> WindowGlobalSourceState" where
  "initial_source gp \<equiv>
     \<lparr>global_partition = gp, tasks = [], next_task = 0, stopped = False, returned = 0,
      blocked_tasks = []\<rparr>"

text \<open>
  The invariant of the constructor's loop over the select list, after the descriptors
  \<open>pre\<close>: none of them has more than \<open>mx\<close> order keys, and \<open>oi\<close> is \<open>0\<close> while \<open>mx = 0\<close> and
  otherwise the first descriptor with \<open>mx\<close> order keys.
\<close>

definition canonical_so_far :: "BoundWindowExpression list \<Rightarrow> nat \<Rightarrow> nat \<Rightarrow> bool" where
  "canonical_so_far pre mx oi \<longleftrightarrow>
     (\<forall>j < length pre. length (orders (pre ! j)) \<le> mx) \<and>
     (if mx = 0 then oi = 0
      else oi < length pre \<and> length (orders (pre ! oi)) = mx \<and>
           (\<forall>j < oi. length (orders (pre ! j)) < mx))"



text \<open>
  The invariant of a group that has tasks, between two tasks: it has at least one block,
  \<^verbatim>\<open>sunk\<close> and \<^verbatim>\<open>finalized\<close> are within their bounds \<^verbatim>\<open>count\<close> and \<^verbatim>\<open>blocks\<close>, and nothing is
  finalized before everything is sunk.
\<close>

definition stage_inv :: "WindowHashGroup \<Rightarrow> bool" where
  "stage_inv g \<longleftrightarrow>
     0 < blocks g \<and> sunk g \<le> count g \<and> finalized g \<le> blocks g \<and>
     (0 < finalized g \<longrightarrow> sunk g = count g)"

section \<open>Example inputs\<close>

text \<open>
  A group of 4 rows in 2 blocks, given by its counters \<^verbatim>\<open>sunk\<close>, \<^verbatim>\<open>finalized\<close> and
  \<^verbatim>\<open>tasks_remaining\<close>; a global partition with given groups; the three tasks of that group
  for one thread; a source state over them with a given cursor and \<^verbatim>\<open>stopped\<close> flag.
\<close>

abbreviation ex_group :: "nat \<Rightarrow> nat \<Rightarrow> nat \<Rightarrow> WindowHashGroup" where
  "ex_group s f t \<equiv>
     \<lparr>hash_group = None, count = 4, blocks = 2,
      rows = Some \<lparr>rdc_count = 4, rdc_blocks = [2, 2]\<rparr>,
      heap = Some \<lparr>rdc_count = 0, rdc_blocks = []\<rparr>, external = Some False,
      hash_bin = 0, sunk = s, finalized = f, tasks_remaining = t, batch_base = 0\<rparr>"

abbreviation ex_gpart :: "WindowHashGroup option list \<Rightarrow> WindowPartitionGlobalSinkState" where
  "ex_gpart whg \<equiv>
     \<lparr>gp_count = 4, gp_rows = None, gp_strings = None, gp_external = False,
      hash_groups = [None], window_hash_groups = whg\<rparr>"

abbreviation ex_tasks :: "Task list" where
  "ex_tasks \<equiv>
     [\<lparr>stage = SINK, group_idx = 0, max_idx = 2, begin_idx = 0, end_idx = 2\<rparr>,
      \<lparr>stage = FINALIZE, group_idx = 0, max_idx = 2, begin_idx = 0, end_idx = 2\<rparr>,
      \<lparr>stage = GETDATA, group_idx = 0, max_idx = 2, begin_idx = 0, end_idx = 2\<rparr>]"

abbreviation ex_gsource ::
  "WindowHashGroup option list \<Rightarrow> nat \<Rightarrow> bool \<Rightarrow> WindowGlobalSourceState" where
  "ex_gsource whg n st \<equiv>
     \<lparr>global_partition = ex_gpart whg, tasks = ex_tasks, next_task = n, stopped = st, returned = 0,
      blocked_tasks = []\<rparr>"

text \<open>
  A fresh group with the given blocks, \<^verbatim>\<open>tasks_remaining\<close> and \<^verbatim>\<open>batch_base\<close>.
\<close>

abbreviation ex_blocks_group :: "nat list \<Rightarrow> nat \<Rightarrow> nat \<Rightarrow> WindowHashGroup" where
  "ex_blocks_group bs t bb \<equiv>
     \<lparr>hash_group = None, count = sum_list bs, blocks = length bs,
      rows = Some \<lparr>rdc_count = sum_list bs, rdc_blocks = bs\<rparr>,
      heap = Some \<lparr>rdc_count = 0, rdc_blocks = []\<rparr>, external = Some False,
      hash_bin = 0, sunk = 0, finalized = 0, tasks_remaining = t, batch_base = bb\<rparr>"

text \<open>
  Three window descriptors; the second is the first with the most order keys.
\<close>

abbreviation ex_select_list :: "BoundWindowExpression list" where
  "ex_select_list \<equiv>
     [\<lparr>partitions = [''g''], orders = []\<rparr>,
      \<lparr>partitions = [], orders = [''a'', ''b'']\<rparr>,
      \<lparr>partitions = [''g''], orders = [''c'', ''d'']\<rparr>]"

text \<open>
  Collaborators with batches of 2 rows: one whose Executors throw in FINALIZE, one whose
  Executors never throw.
\<close>

abbreviation ex_collab :: Collaborators where
  "ex_collab \<equiv> \<lparr>vector_size = 2, executor_throws = (\<lambda>st gi b. st = FINALIZE)\<rparr>"

abbreviation ex_quiet :: Collaborators where
  "ex_quiet \<equiv> \<lparr>vector_size = 2, executor_throws = (\<lambda>st gi b. False)\<rparr>"

text \<open>
  The task list after the worker has sunk both blocks and failed in FINALIZE.
\<close>

abbreviation ex_failed_tasks :: "Task list" where
  "ex_failed_tasks \<equiv>
     [\<lparr>stage = SINK, group_idx = 0, max_idx = 2, begin_idx = 2, end_idx = 2\<rparr>,
      \<lparr>stage = FINALIZE, group_idx = 0, max_idx = 2, begin_idx = 0, end_idx = 2\<rparr>,
      \<lparr>stage = GETDATA, group_idx = 0, max_idx = 2, begin_idx = 0, end_idx = 2\<rparr>]"


abbreviation ex_scanning :: "nat \<Rightarrow> nat \<Rightarrow> nat \<Rightarrow> nat \<Rightarrow> WindowLocalSourceState" where
  "ex_scanning bi blk tot scanned \<equiv>
     \<lparr>batch_index = bi, task = Some 2, window_hash_group = Some 0,
      scanner = Some \<lparr>sc_block = blk, sc_total = tot, sc_scanned = scanned, sc_flush = True\<rparr>\<rparr>"

section \<open>Theorems\<close>

subsection \<open>Dispensing and finishing tasks\<close>

lemma GetStage_simps:
  "GetStage g =
     (if finalized g = blocks g then GETDATA
      else if sunk g = count g then FINALIZE else SINK)"
  by (simp add: GetStage_def)

text \<open>
  Claim C1.  A call of \<^verbatim>\<open>TryNextTask\<close>: when \<^verbatim>\<open>stopped\<close> is set or every task has been
  dispensed, it returns true with a null task and changes nothing.  Otherwise, the group
  of the task at the cursor being in its slot, it returns true with that task and moves
  the cursor by one if the stage of the task is the stage \<^verbatim>\<open>GetStage()\<close> gives for the
  group; if it is not, it returns false (blocked) with a null task and leaves the cursor.
\<close>

theorem TryNextTask_dispenses:
  "(next_task gs \<ge> length (tasks gs) \<or> stopped gs \<longrightarrow>
      TryNextTask gs = (Inr True, None, gs)) \<and>
   (next_task gs < length (tasks gs) \<and> \<not> stopped gs \<and>
    deref_group gs (group_idx (tasks gs ! next_task gs)) = Inr g \<longrightarrow>
      TryNextTask gs =
        (if stage (tasks gs ! next_task gs) = GetStage g
         then (Inr True, Some (next_task gs), gs\<lparr>next_task := next_task gs + 1\<rparr>)
         else (Inr False, None, gs)))"
  by (simp add: TryNextTask_def Let_def)

theorem TryNextTask_dispenses_witness:
  "TryNextTask (ex_gsource [Some (ex_group 4 0 3)] 1 False) =
     (Inr True, Some 1, ex_gsource [Some (ex_group 4 0 3)] 2 False) \<and>
   TryNextTask (ex_gsource [Some (ex_group 3 0 3)] 1 False) =
     (Inr False, None, ex_gsource [Some (ex_group 3 0 3)] 1 False) \<and>
   TryNextTask (ex_gsource [Some (ex_group 4 0 3)] 1 True) =
     (Inr True, None, ex_gsource [Some (ex_group 4 0 3)] 1 True) \<and>
   TryNextTask (ex_gsource [Some (ex_group 4 2 3)] 3 False) =
     (Inr True, None, ex_gsource [Some (ex_group 4 2 3)] 3 False)"
  using TryNextTask_dispenses [of "ex_gsource [Some (ex_group 4 0 3)] 1 False" "ex_group 4 0 3"]
        TryNextTask_dispenses [of "ex_gsource [Some (ex_group 3 0 3)] 1 False" "ex_group 3 0 3"]
        TryNextTask_dispenses [of "ex_gsource [Some (ex_group 4 0 3)] 1 True" "ex_group 4 0 3"]
        TryNextTask_dispenses [of "ex_gsource [Some (ex_group 4 2 3)] 3 False" "ex_group 4 2 3"]
  by (simp add: deref_group_def GetStage_simps)

lemma dec64_zero_iff:
  assumes "n < 2 ^ 64"
  shows "dec64 n = 0 \<longleftrightarrow> n = 1"
proof (cases "n = 0")
  case True
  then show ?thesis by (simp add: dec64_def)
next
  case False
  then have "n + 2 ^ 64 - 1 = (n - 1) + 1 * 2 ^ 64" by simp
  then have "dec64 n = (n - 1) mod 2 ^ 64"
    unfolding dec64_def by (simp only: mod_mult_self1)
  also have "\<dots> = n - 1" using assms by simp
  finally show ?thesis using False by auto
qed

text \<open>
  Claim C4, as amended.  \<^verbatim>\<open>FinishTask\<close> with a null task does nothing.  With a task whose
  group is in its slot it decrements \<^verbatim>\<open>tasks_remaining\<close> of the group, and it releases the
  group (resets the slot) exactly when the counter was 1, that is when the decremented
  counter is zero; otherwise the group stays, with the decremented counter.  The stage of
  the group plays no part.
\<close>

theorem FinishTask_releases_at_zero:
  assumes "ti < length (tasks gs)"
    and "deref_group gs (group_idx (tasks gs ! ti)) = Inr g"
    and "tasks_remaining g < 2 ^ 64"
  shows "FinishTask None gs = (Inr (), gs) \<and>
         FinishTask (Some ti) gs =
           (Inr (),
            set_group (group_idx (tasks gs ! ti))
              (if tasks_remaining g = 1 then None
               else Some (g\<lparr>tasks_remaining := dec64 (tasks_remaining g)\<rparr>)) gs)"
  using assms by (simp add: FinishTask_def Let_def dec64_zero_iff)

theorem FinishTask_releases_at_zero_witness:
  "FinishTask (Some 2) (ex_gsource [Some (ex_group 4 2 1)] 3 False) =
     (Inr (), ex_gsource [None] 3 False) \<and>
   FinishTask (Some 2) (ex_gsource [Some (ex_group 4 2 2)] 3 False) =
     (Inr (), ex_gsource [Some (ex_group 4 2 1)] 3 False)"
  using FinishTask_releases_at_zero [of 2 "ex_gsource [Some (ex_group 4 2 1)] 3 False" "ex_group 4 2 1"]
        FinishTask_releases_at_zero [of 2 "ex_gsource [Some (ex_group 4 2 2)] 3 False" "ex_group 4 2 2"]
  by (simp add: deref_group_def set_group_def dec64_def)

text \<open>
  The claim as first stated releases a group only in stage DONE: a group in stage GETDATA
  with one task remaining is released.
\<close>

theorem FinishTask_stage_counterexample:
  "GetStage (ex_group 4 2 1) = GETDATA \<and>
   FinishTask (Some 2) (ex_gsource [Some (ex_group 4 2 1)] 3 False) =
     (Inr (), ex_gsource [None] 3 False)"
  by (simp add: FinishTask_def deref_group_def set_group_def dec64_def GetStage_simps)

subsection \<open>Finalize, and the order of the source\<close>

text \<open>
  Claim C5.  \<^verbatim>\<open>PhysicalWindow::Finalize\<close> returns NO\_OUTPUT\_POSSIBLE when no rows were
  sunk.  Otherwise, when the unpartitioned row collection exists, it returns READY if that
  collection has rows and NO\_OUTPUT\_POSSIBLE if not, and inserts no event.  Otherwise,
  when there are no merge tasks, it returns NO\_OUTPUT\_POSSIBLE.  In the remaining case it
  inserts exactly one PartitionMergeEvent and returns READY.
\<close>

theorem Finalize_outcomes:
  "(gp_count gp = 0 \<longrightarrow> PhysicalWindow_Finalize H gp evs = (NO_OUTPUT_POSSIBLE, evs)) \<and>
   (gp_count gp \<noteq> 0 \<and> gp_rows gp = Some r \<longrightarrow>
      PhysicalWindow_Finalize H gp evs =
        (if rdc_count r \<noteq> 0 then READY else NO_OUTPUT_POSSIBLE, evs)) \<and>
   (gp_count gp \<noteq> 0 \<and> gp_rows gp = None \<and> \<not> H gp \<longrightarrow>
      PhysicalWindow_Finalize H gp evs = (NO_OUTPUT_POSSIBLE, evs)) \<and>
   (gp_count gp \<noteq> 0 \<and> gp_rows gp = None \<and> H gp \<longrightarrow>
      PhysicalWindow_Finalize H gp evs = (READY, evs @ [PartitionMergeEvent]))"
  by (simp add: PhysicalWindow_Finalize_def)

theorem Finalize_outcomes_witness:
  "PhysicalWindow_Finalize (\<lambda>gp. hash_groups gp \<noteq> []) (ex_gpart []) [] =
     (READY, [PartitionMergeEvent]) \<and>
   PhysicalWindow_Finalize (\<lambda>gp. hash_groups gp \<noteq> []) (ex_gpart []\<lparr>hash_groups := []\<rparr>) [] =
     (NO_OUTPUT_POSSIBLE, []) \<and>
   PhysicalWindow_Finalize (\<lambda>gp. hash_groups gp \<noteq> []) (ex_gpart []\<lparr>gp_count := 0\<rparr>) [] =
     (NO_OUTPUT_POSSIBLE, []) \<and>
   PhysicalWindow_Finalize (\<lambda>gp. hash_groups gp \<noteq> [])
       (ex_gpart []\<lparr>gp_rows := Some \<lparr>rdc_count = 4, rdc_blocks = [4]\<rparr>\<rparr>) [] =
     (READY, []) \<and>
   PhysicalWindow_Finalize (\<lambda>gp. hash_groups gp \<noteq> [])
       (ex_gpart []\<lparr>gp_rows := Some \<lparr>rdc_count = 0, rdc_blocks = []\<rparr>\<rparr>) [] =
     (NO_OUTPUT_POSSIBLE, [])"
  using Finalize_outcomes [of "ex_gpart []" "\<lambda>gp. hash_groups gp \<noteq> []" "[]"]
        Finalize_outcomes [of "ex_gpart []\<lparr>hash_groups := []\<rparr>" "\<lambda>gp. hash_groups gp \<noteq> []" "[]"]
        Finalize_outcomes [of "ex_gpart []\<lparr>gp_count := 0\<rparr>" "\<lambda>gp. hash_groups gp \<noteq> []" "[]"]
        Finalize_outcomes [of "ex_gpart []\<lparr>gp_rows := Some \<lparr>rdc_count = 4, rdc_blocks = [4]\<rparr>\<rparr>"
                              "\<lambda>gp. hash_groups gp \<noteq> []" "[]" "\<lparr>rdc_count = 4, rdc_blocks = [4]\<rparr>"]
        Finalize_outcomes [of "ex_gpart []\<lparr>gp_rows := Some \<lparr>rdc_count = 0, rdc_blocks = []\<rparr>\<rparr>"
                              "\<lambda>gp. hash_groups gp \<noteq> []" "[]" "\<lparr>rdc_count = 0, rdc_blocks = []\<rparr>"]
  by simp

lemma select_loop_canonical:
  assumes "canonical_so_far pre mx oi"
  shows "case select_loop es (length pre) (mx, oi, dep) of
           (mx', oi', dep') \<Rightarrow> canonical_so_far (pre @ es) mx' oi'"
  using assms
proof (induction es arbitrary: pre mx oi dep)
  case Nil
  then show ?case by simp
next
  case (Cons e es)
  let ?dep = "if partitions e = [] \<and> orders e = [] then True else dep"
  show ?case
  proof (cases "length (orders e) > mx")
    case True
    have "canonical_so_far (pre @ [e]) (length (orders e)) (length pre)"
      using Cons.prems True
      by (auto simp: canonical_so_far_def nth_append less_Suc_eq split: if_splits)
    from Cons.IH [OF this, of ?dep] True show ?thesis by (simp add: Let_def)
  next
    case False
    have "canonical_so_far (pre @ [e]) mx oi"
      using Cons.prems False
      by (auto simp: canonical_so_far_def nth_append less_Suc_eq split: if_splits)
    from Cons.IH [OF this, of ?dep] False show ?thesis by (simp add: Let_def)
  qed
qed

lemma PhysicalWindow_ctor_canonical:
  "select_list (PhysicalWindow_ctor sl) = sl \<and>
   (\<exists>mx. canonical_so_far sl mx (order_idx (PhysicalWindow_ctor sl)))"
proof -
  have "canonical_so_far [] 0 0" by (simp add: canonical_so_far_def)
  from select_loop_canonical [OF this, of sl False]
  show ?thesis by (auto simp: PhysicalWindow_ctor_def split: prod.splits)
qed

text \<open>
  Claim C8.  For a non-empty select list the constructor leaves in \<^verbatim>\<open>order_idx\<close> the first
  descriptor with the most order keys.  \<^verbatim>\<open>SupportsBatchIndex()\<close> is true, and
  \<^verbatim>\<open>SourceOrder()\<close> is FIXED\_ORDER, if and only if that descriptor has no partition keys
  and at least one order key; otherwise they are false and NO\_ORDER.
\<close>

theorem SourceOrder_canonical_descriptor:
  assumes "sl \<noteq> []"
  shows "order_idx (PhysicalWindow_ctor sl) < length sl \<and>
         (\<forall>e \<in> set sl. length (orders e) \<le> length (orders (sl ! order_idx (PhysicalWindow_ctor sl)))) \<and>
         (\<forall>j < order_idx (PhysicalWindow_ctor sl).
            length (orders (sl ! j)) < length (orders (sl ! order_idx (PhysicalWindow_ctor sl)))) \<and>
         SupportsBatchIndex (PhysicalWindow_ctor sl) =
           Inr (partitions (sl ! order_idx (PhysicalWindow_ctor sl)) = [] \<and>
                orders (sl ! order_idx (PhysicalWindow_ctor sl)) \<noteq> []) \<and>
         SourceOrder (PhysicalWindow_ctor sl) =
           Inr (if partitions (sl ! order_idx (PhysicalWindow_ctor sl)) = [] \<and>
                   orders (sl ! order_idx (PhysicalWindow_ctor sl)) \<noteq> []
                then FIXED_ORDER else NO_ORDER)"
proof -
  let ?op = "PhysicalWindow_ctor sl"
  from PhysicalWindow_ctor_canonical [of sl]
  obtain mx where sel: "select_list ?op = sl" and can: "canonical_so_far sl mx (order_idx ?op)"
    by blast
  have lt: "order_idx ?op < length sl"
    using can assms by (auto simp: canonical_so_far_def split: if_splits)
  have mx: "length (orders (sl ! order_idx ?op)) = mx"
  proof (cases "mx = 0")
    case True
    with can lt show ?thesis by (auto simp: canonical_so_far_def)
  next
    case False
    with can show ?thesis by (auto simp: canonical_so_far_def)
  qed
  have le: "\<forall>e \<in> set sl. length (orders e) \<le> length (orders (sl ! order_idx ?op))"
    using can mx by (auto simp: canonical_so_far_def in_set_conv_nth)
  have first: "\<forall>j < order_idx ?op. length (orders (sl ! j)) < length (orders (sl ! order_idx ?op))"
    using can mx by (auto simp: canonical_so_far_def split: if_splits)
  have sup: "SupportsBatchIndex ?op =
           Inr (partitions (sl ! order_idx ?op) = [] \<and> orders (sl ! order_idx ?op) \<noteq> [])"
    using lt sel by (simp add: SupportsBatchIndex_def Let_def)
  have src: "SourceOrder ?op =
           Inr (if partitions (sl ! order_idx ?op) = [] \<and> orders (sl ! order_idx ?op) \<noteq> []
                then FIXED_ORDER else NO_ORDER)"
    unfolding SourceOrder_def sup by simp
  from lt le first sup src show ?thesis by blast
qed

theorem SourceOrder_canonical_descriptor_witness:
  "order_idx (PhysicalWindow_ctor ex_select_list) = 1 \<and>
   SupportsBatchIndex (PhysicalWindow_ctor ex_select_list) = Inr True \<and>
   SourceOrder (PhysicalWindow_ctor ex_select_list) = Inr FIXED_ORDER \<and>
   SourceOrder (PhysicalWindow_ctor (rev ex_select_list)) = Inr NO_ORDER"
  using SourceOrder_canonical_descriptor [of ex_select_list]
        SourceOrder_canonical_descriptor [of "rev ex_select_list"]
  by (simp add: PhysicalWindow_ctor_def)

subsection \<open>The external flag of a new group\<close>

text \<open>
  Claim C10.  A group constructed for bin 0 while the global partition has its
  unpartitioned rows (and strings) gets \<^verbatim>\<open>external = true\<close>, whatever \<^verbatim>\<open>gpart.external\<close> is.
  In the other case, a group constructed for a bin that has a hash group gets the
  \<^verbatim>\<open>external\<close> flag of that hash group's sorter.  Where neither holds the constructor
  returns early and the flag is never assigned.
\<close>

theorem external_flag_of_new_group:
  "(gp_rows gp = Some r \<and> gp_strings gp = Some s \<longrightarrow>
      (\<exists>g. WindowHashGroup_ctor align gp 0 = Inr (g, gp) \<and> external g = Some True)) \<and>
   (\<not> (gp_rows gp \<noteq> None \<and> hash_bin_p = 0) \<and> hash_bin_p < length (hash_groups gp) \<and>
    hash_groups gp ! hash_bin_p = Some hg \<and>
    WindowHashGroup_ctor align gp hash_bin_p = Inr (g', gp') \<longrightarrow>
      external g' = Some (gss_external (global_sort hg))) \<and>
   (\<not> (gp_rows gp \<noteq> None \<and> hash_bin_p = 0) \<and>
    \<not> (hash_bin_p < length (hash_groups gp) \<and> hash_groups gp ! hash_bin_p \<noteq> None) \<longrightarrow>
      (\<exists>g. WindowHashGroup_ctor align gp hash_bin_p = Inr (g, gp) \<and> external g = None))"
  by (auto simp: WindowHashGroup_ctor_def WindowHashGroup_scan_def new_WindowHashGroup_def
        MaterializeSortedData_def set_blocks_def Let_def
      split: option.splits list.splits prod.splits sum.splits if_splits)

theorem external_flag_of_new_group_witness:
  "WindowHashGroup_ctor (\<lambda>r s. (r, s))
     \<lparr>gp_count = 4, gp_rows = Some \<lparr>rdc_count = 4, rdc_blocks = [4]\<rparr>,
      gp_strings = Some \<lparr>rdc_count = 0, rdc_blocks = []\<rparr>, gp_external = False,
      hash_groups = [], window_hash_groups = []\<rparr> 0 =
     Inr (\<lparr>hash_group = None, count = 4, blocks = 1,
           rows = Some \<lparr>rdc_count = 4, rdc_blocks = [4]\<rparr>,
           heap = Some \<lparr>rdc_count = 0, rdc_blocks = []\<rparr>, external = Some True,
           hash_bin = 0, sunk = 0, finalized = 0, tasks_remaining = 0, batch_base = 0\<rparr>,
          \<lparr>gp_count = 4, gp_rows = Some \<lparr>rdc_count = 4, rdc_blocks = [4]\<rparr>,
           gp_strings = Some \<lparr>rdc_count = 0, rdc_blocks = []\<rparr>, gp_external = False,
           hash_groups = [], window_hash_groups = []\<rparr>) \<and>
   map_sum id (external \<circ> fst)
     (WindowHashGroup_ctor (\<lambda>r s. (r, s))
        \<lparr>gp_count = 4, gp_rows = None, gp_strings = None, gp_external = True,
         hash_groups =
           [Some \<lparr>hg_count = 4,
                  global_sort = \<lparr>gss_external = False,
                                 sorted_blocks = [\<lparr>data_blocks = [2, 2], heap_blocks = []\<rparr>]\<rparr>\<rparr>],
         window_hash_groups = [None]\<rparr> 0) = Inr (Some False) \<and>
   map_sum id (external \<circ> fst)
     (WindowHashGroup_ctor (\<lambda>r s. (r, s))
        \<lparr>gp_count = 4, gp_rows = None, gp_strings = None, gp_external = True,
         hash_groups = [None], window_hash_groups = [None]\<rparr> 0) = Inr None"
  using external_flag_of_new_group
          [of "\<lparr>gp_count = 4, gp_rows = Some \<lparr>rdc_count = 4, rdc_blocks = [4]\<rparr>,
                gp_strings = Some \<lparr>rdc_count = 0, rdc_blocks = []\<rparr>, gp_external = False,
                hash_groups = [], window_hash_groups = []\<rparr>"
              "\<lparr>rdc_count = 4, rdc_blocks = [4]\<rparr>" "\<lparr>rdc_count = 0, rdc_blocks = []\<rparr>"
              "\<lambda>r s. (r, s)" 0]
  by (simp add: WindowHashGroup_ctor_def WindowHashGroup_scan_def new_WindowHashGroup_def
        MaterializeSortedData_def set_blocks_def)

subsection \<open>The task list built by the constructor\<close>

lemma less_ceil_div_iff: "0 < p \<Longrightarrow> k < ceil_div b p \<longleftrightarrow> k * p < b"
proof -
  assume p: "0 < p"
  have "k < ceil_div b p \<longleftrightarrow> Suc k \<le> (b + p - 1) div p"
    by (simp add: ceil_div_def Suc_le_eq)
  also have "\<dots> \<longleftrightarrow> Suc k * p \<le> b + p - 1"
    using p by (simp add: less_eq_div_iff_mult_less_eq)
  also have "\<dots> \<longleftrightarrow> k * p < b"
    using p by auto
  finally show ?thesis .
qed

lemma emitted_step:
  assumes "gi < length (window_hash_groups (global_partition gs))"
    and "window_hash_groups (global_partition gs) ! gi = Some g"
  shows "emitted ts (bump gi m)
           (set_group gi (Some (g\<lparr>tasks_remaining := tasks_remaining g + 1\<rparr>))
              (gs\<lparr>tasks := tasks gs @ [t]\<rparr>)) =
         emitted (t # ts) (bump gi (Suc m)) gs"
  using assms by (simp add: emitted_def set_group_def bump_def)

lemma bump_0: "bump gi 0 whg = whg"
proof -
  have "map_option (\<lambda>g. g\<lparr>tasks_remaining := tasks_remaining g + 0\<rparr>) (whg ! gi) = whg ! gi"
    by (cases "whg ! gi") simp_all
  then show ?thesis unfolding bump_def by (simp only: list_update_id)
qed

lemma emitted_nothing:
  "emitted [] (bump gi 0) gs = gs"
  by (simp add: emitted_def bump_0)

lemma task_loop_run:
  assumes p: "0 < p"
    and gi: "gi < length (window_hash_groups (global_partition gs))"
            "window_hash_groups (global_partition gs) ! gi \<noteq> None"
    and k: "k \<le> ceil_div b p"
  shows "task_loop p \<lparr>stage = st, group_idx = gi, max_idx = b, begin_idx = k * p, end_idx = e\<rparr> gs =
         Some (Inr (emitted (map (mk_task st gi b p) [k..<ceil_div b p])
                            (bump gi (ceil_div b p - k)) gs))"
  using gi k
proof (induction "ceil_div b p - k" arbitrary: k e gs)
  case 0
  then have "k = ceil_div b p" by simp
  then have "\<not> k * p < b" using less_ceil_div_iff [OF p, of k b] by simp
  then show ?case
    using \<open>k = ceil_div b p\<close> by (subst task_loop.simps) (simp add: emitted_nothing)
next
  case (Suc n)
  then have lt: "k < ceil_div b p" by simp
  then have kb: "k * p < b" using less_ceil_div_iff [OF p, of k b] by simp
  from Suc.prems obtain g where g: "window_hash_groups (global_partition gs) ! gi = Some g"
    by auto
  let ?t = "mk_task st gi b p k"
  let ?gs2 = "set_group gi (Some (g\<lparr>tasks_remaining := tasks_remaining g + 1\<rparr>))
                (gs\<lparr>tasks := tasks gs @ [?t]\<rparr>)"
  have n: "n = ceil_div b p - Suc k" using Suc.hyps(2) by simp
  have len2: "gi < length (window_hash_groups (global_partition ?gs2))"
    using Suc.prems(1) by (simp add: set_group_def)
  have some2: "window_hash_groups (global_partition ?gs2) ! gi \<noteq> None"
    using Suc.prems(1) by (simp add: set_group_def)
  have IH: "task_loop p \<lparr>stage = st, group_idx = gi, max_idx = b, begin_idx = Suc k * p,
                          end_idx = min (k * p + p) b\<rparr> ?gs2 =
            Some (Inr (emitted (map (mk_task st gi b p) [Suc k..<ceil_div b p])
                               (bump gi (ceil_div b p - Suc k)) ?gs2))"
    using Suc.hyps(1) [OF n len2 some2] lt by simp
  have step: "task_loop p \<lparr>stage = st, group_idx = gi, max_idx = b, begin_idx = k * p, end_idx = e\<rparr> gs =
              task_loop p \<lparr>stage = st, group_idx = gi, max_idx = b, begin_idx = Suc k * p,
                            end_idx = min (k * p + p) b\<rparr> ?gs2"
    using kb g Suc.prems(1)
    by (subst task_loop.simps) (simp add: Let_def deref_group_def mk_task_def add.commute)
  have range: "[k..<ceil_div b p] = k # [Suc k..<ceil_div b p]"
    using lt by (simp add: upt_conv_Cons)
  have cnt: "ceil_div b p - k = Suc (ceil_div b p - Suc k)" using lt by simp
  show ?case
    unfolding step IH range cnt
    using emitted_step [OF Suc.prems(1) g] by simp
qed

lemma ceil_div_0: "ceil_div 0 p = 0"
  by (cases "p = 0") (simp_all add: ceil_div_def)

lemma bump_bump: "bump gi m2 (bump gi m1 whg) = bump gi (m1 + m2) whg"
proof (cases "gi < length whg")
  case True
  then show ?thesis
    by (cases "whg ! gi") (simp_all add: bump_def add.assoc)
next
  case False
  then show ?thesis by (simp add: bump_def list_update_beyond not_less)
qed

lemma bump_length: "length (bump gi m whg) = length whg"
  by (simp add: bump_def)

lemma bump_None_iff: "i < length whg \<Longrightarrow> bump gi m whg ! i = None \<longleftrightarrow> whg ! i = None"
  by (cases "i = gi") (simp_all add: bump_def)

lemma emitted_emitted:
  "emitted ts2 f2 (emitted ts1 f1 gs) = emitted (ts1 @ ts2) (\<lambda>whg. f2 (f1 whg)) gs"
  by (simp add: emitted_def)

lemma emitted_groups:
  "window_hash_groups (global_partition (emitted ts f gs)) =
     f (window_hash_groups (global_partition gs))"
  by (simp add: emitted_def)

lemma task_loop_new_Task:
  assumes p: "0 < p \<or> b = 0"
    and gi: "gi < length (window_hash_groups (global_partition gs))"
            "window_hash_groups (global_partition gs) ! gi \<noteq> None"
  shows "task_loop p (new_Task st gi b) gs =
         Some (Inr (emitted (stage_tasks st gi b p) (bump gi (ceil_div b p)) gs))"
proof (cases "0 < p")
  case True
  from task_loop_run [OF True gi, of 0 b st 0]
  show ?thesis by (simp add: new_Task_def stage_tasks_def)
next
  case False
  with p have b: "b = 0" by simp
  show ?thesis
    unfolding b
    by (subst task_loop.simps)
       (simp add: new_Task_def stage_tasks_def ceil_div_0 emitted_nothing)
qed

lemma states_loop_run:
  assumes p: "0 < p \<or> fst pb = 0"
    and gi: "snd pb < length (window_hash_groups (global_partition gs))"
            "window_hash_groups (global_partition gs) ! snd pb \<noteq> None"
  shows "states_loop p pb states gs =
         Some (Inr (emitted (concat (map (\<lambda>st. stage_tasks st (snd pb) (fst pb) p) states))
                            (bump (snd pb) (length states * ceil_div (fst pb) p)) gs))"
  using gi
proof (induction states arbitrary: gs)
  case Nil
  then show ?case by (simp add: emitted_nothing)
next
  case (Cons st states)
  let ?gs1 = "emitted (stage_tasks st (snd pb) (fst pb) p) (bump (snd pb) (ceil_div (fst pb) p)) gs"
  have one: "task_loop p (new_Task st (snd pb) (fst pb)) gs = Some (Inr ?gs1)"
    by (rule task_loop_new_Task [OF p Cons.prems])
  have len: "snd pb < length (window_hash_groups (global_partition ?gs1))"
    using Cons.prems(1) by (simp add: emitted_groups bump_length)
  have some: "window_hash_groups (global_partition ?gs1) ! snd pb \<noteq> None"
    using Cons.prems by (simp add: emitted_groups bump_None_iff)
  have "states_loop p pb (st # states) gs = states_loop p pb states ?gs1"
    by (simp only: states_loop.simps one option.case sum.case)
  also have "\<dots> = Some (Inr (emitted (concat (map (\<lambda>st. stage_tasks st (snd pb) (fst pb) p) states))
                            (bump (snd pb) (length states * ceil_div (fst pb) p)) ?gs1))"
    by (rule Cons.IH [OF len some])
  finally show ?case
    by (simp add: emitted_emitted bump_bump)
qed

lemma bump_all_length: "length (bump_all p pbs whg) = length whg"
  unfolding bump_all_def by (induction pbs arbitrary: whg) (simp_all add: bump_length)

lemma bump_all_None_iff:
  "i < length whg \<Longrightarrow> bump_all p pbs whg ! i = None \<longleftrightarrow> whg ! i = None"
  unfolding bump_all_def
  by (induction pbs arbitrary: whg) (simp_all add: bump_length bump_None_iff)

lemma blocks_loop_run:
  assumes p: "\<forall>pb \<in> set pbs. 0 < p \<or> fst pb = 0"
    and gi: "\<forall>pb \<in> set pbs. snd pb < length (window_hash_groups (global_partition gs)) \<and>
               window_hash_groups (global_partition gs) ! snd pb \<noteq> None"
  shows "blocks_loop p pbs [SINK, FINALIZE, GETDATA] gs =
         Some (Inr (emitted (concat (map (group_tasks p) pbs)) (bump_all p pbs) gs))"
  using assms
proof (induction pbs arbitrary: gs)
  case Nil
  then show ?case by (simp add: emitted_def bump_all_def)
next
  case (Cons pb pbs)
  let ?gs1 = "emitted (group_tasks p pb) (bump (snd pb) (3 * ceil_div (fst pb) p)) gs"
  have one: "states_loop p pb [SINK, FINALIZE, GETDATA] gs = Some (Inr ?gs1)"
  proof -
    have three: "\<And>x::nat. x + (x + x) = 3 * x" by simp
    show ?thesis
      using states_loop_run [of p pb gs "[SINK, FINALIZE, GETDATA]"] Cons.prems
      by (simp add: group_tasks_def three)
  qed
  have rest: "\<forall>q \<in> set pbs. snd q < length (window_hash_groups (global_partition ?gs1)) \<and>
               window_hash_groups (global_partition ?gs1) ! snd q \<noteq> None"
    using Cons.prems(2) by (simp add: emitted_groups bump_length bump_None_iff)
  have p': "\<forall>q \<in> set pbs. 0 < p \<or> fst q = 0" using Cons.prems(1) by auto
  have "blocks_loop p (pb # pbs) [SINK, FINALIZE, GETDATA] gs =
        blocks_loop p pbs [SINK, FINALIZE, GETDATA] ?gs1"
    by (simp only: blocks_loop.simps one option.case sum.case)
  also have "\<dots> = Some (Inr (emitted (concat (map (group_tasks p) pbs)) (bump_all p pbs) ?gs1))"
    by (rule Cons.IH [OF p' rest])
  finally show ?case
    by (simp add: emitted_emitted bump_all_def)
qed

lemma bump_all_nth:
  assumes "i < length whg"
  shows "bump_all p pbs whg ! i =
         map_option (\<lambda>g. g\<lparr>tasks_remaining := tasks_remaining g +
                              sum_list (map (\<lambda>pb. if snd pb = i then 3 * ceil_div (fst pb) p else 0) pbs)\<rparr>)
           (whg ! i)"
  using assms unfolding bump_all_def
proof (induction pbs arbitrary: whg)
  case Nil
  then show ?case by (cases "whg ! i") simp_all
next
  case (Cons pb pbs)
  have len: "i < length (bump (snd pb) (3 * ceil_div (fst pb) p) whg)"
    using Cons.prems by (simp add: bump_length)
  show ?case
  proof (cases "snd pb = i")
    case True
    then show ?thesis
      using Cons.IH [OF len] Cons.prems
      by (cases "whg ! i") (simp_all add: bump_def add.assoc)
  next
    case False
    then show ?thesis
      using Cons.IH [OF len] Cons.prems by (simp add: bump_def)
  qed
qed

lemma sum_list_single:
  assumes "distinct (map snd pbs)" and "pb \<in> set pbs"
  shows "sum_list (map (\<lambda>q. if snd q = snd pb then c q else 0) pbs) = (c pb :: nat)"
  using assms
proof (induction pbs)
  case Nil
  then show ?case by simp
next
  case (Cons q pbs)
  show ?case
  proof (cases "q = pb")
    case True
    have "\<forall>r \<in> set pbs. snd r \<noteq> snd pb"
      using Cons.prems(1) True by (auto simp: image_iff)
    then have "sum_list (map (\<lambda>q. if snd q = snd pb then c q else 0) pbs) = 0"
      by (induction pbs) simp_all
    with True show ?thesis by simp
  next
    case False
    with Cons.prems have "pb \<in> set pbs" "snd q \<noteq> snd pb" by force+
    with Cons show ?thesis by simp
  qed
qed

lemma populated_simps:
  "populated None = False"
  "populated (Some g) = (rows g \<noteq> None)"
  by (simp_all add: populated_def)

lemma partition_blocks_loop_populated:
  "\<forall>w \<in> set ws. populated w \<Longrightarrow>
   partition_blocks_loop ws k = Inr (zip (map block_count ws) [k..<k + length ws])"
proof (induction ws arbitrary: k)
  case Nil
  then show ?case by simp
next
  case (Cons w ws)
  from Cons.prems obtain g r where w: "w = Some g" "rows g = Some r"
    by (auto simp: populated_def split: option.splits)
  have "[k..<k + length (w # ws)] = k # [Suc k..<Suc k + length ws]"
    by (subst upt_rec) simp
  then show ?case
    using Cons.IH [of "Suc k"] Cons.prems w by (simp add: block_count_def)
qed

lemma partition_blocks_loop_null:
  "\<not> (\<forall>w \<in> set ws. populated w) \<Longrightarrow> partition_blocks_loop ws k = Inl NullDereference"
proof (induction ws arbitrary: k)
  case Nil
  then show ?case by simp
next
  case (Cons w ws)
  show ?case
  proof (cases "populated w")
    case True
    then obtain g r where w: "w = Some g" "rows g = Some r"
      by (auto simp: populated_def split: option.splits)
    from True Cons.prems have "\<not> (\<forall>w \<in> set ws. populated w)" by simp
    from Cons.IH [OF this, of "Suc k"] w show ?thesis by simp
  next
    case False
    then show ?thesis
      by (cases w) (auto simp: populated_def)
  qed
qed

lemma batch_base_loop_length: "length (batch_base_loop bb ws) = length ws"
  by (induction bb ws rule: batch_base_loop.induct) (simp_all split: option.splits add: Let_def)

lemma batch_base_loop_populated: "map populated (batch_base_loop bb ws) = map populated ws"
  by (induction bb ws rule: batch_base_loop.induct)
     (simp_all split: option.splits add: Let_def populated_def)

lemma batch_base_loop_block_count: "map block_count (batch_base_loop bb ws) = map block_count ws"
  by (induction bb ws rule: batch_base_loop.induct)
     (simp_all split: option.splits add: Let_def block_count_def)

lemma batch_base_loop_tasks_remaining:
  "map (map_option tasks_remaining) (batch_base_loop bb ws) = map (map_option tasks_remaining) ws"
  by (induction bb ws rule: batch_base_loop.induct)
     (simp_all split: option.splits add: Let_def)


lemma sort_greater_set: "set (sort_greater xs) = set xs"
  by (simp add: sort_greater_def)

lemma sort_greater_length: "length (sort_greater xs) = length xs"
  by (simp add: sort_greater_def)

lemma sort_greater_distinct: "distinct (map snd xs) \<Longrightarrow> distinct (map snd (sort_greater xs))"
  by (simp add: sort_greater_def distinct_map rev_map [symmetric] inj_on_def)

lemma sort_greater_descending: "sorted (rev (sort_greater xs))"
  by (simp add: sort_greater_def)

lemma sorted_map_fst: "sorted (xs :: (nat \<times> nat) list) \<Longrightarrow> sorted (map fst xs)"
  by (induction xs) (auto simp: less_eq_prod_def)

lemma sort_greater_blocks_descending: "sorted (rev (map fst (sort_greater xs)))"
  by (simp add: sort_greater_def rev_map sorted_map_fst)

lemma sorted_le_last:
  "sorted (ys :: (nat \<times> nat) list) \<Longrightarrow> y \<in> set ys \<Longrightarrow> y \<le> last ys"
  by (induction ys) auto

lemma sort_greater_hd:
  assumes "xs \<noteq> []"
  shows "fst (hd (sort_greater xs)) = Max (fst ` set xs)"
proof -
  let ?ys = "sort xs"
  have ne: "?ys \<noteq> []" using assms by (metis length_sort length_0_conv)
  have hd: "hd (sort_greater xs) = last ?ys"
    by (simp add: sort_greater_def hd_rev)
  have "\<forall>y \<in> set ?ys. y \<le> last ?ys"
    using sorted_sort [of xs] by (blast intro: sorted_le_last)
  then have "\<forall>y \<in> set xs. fst y \<le> fst (last ?ys)"
    by (auto simp: less_eq_prod_def)
  moreover have "last ?ys \<in> set xs" using ne last_in_set [of ?ys] by simp
  ultimately show ?thesis
    unfolding hd by (intro Max_eqI [symmetric]) auto
qed

lemma ceil_div_pos_iff: "0 < T \<Longrightarrow> 0 < ceil_div M T \<longleftrightarrow> 0 < M"
  using less_ceil_div_iff [of T 0 M] by simp

lemma stage_tasks_cover:
  assumes p: "0 < p"
  shows "(\<Union>t \<in> set (stage_tasks st gi b p). {begin_idx t..<end_idx t}) = {0..<b}"
proof (intro set_eqI iffI)
  fix x
  assume "x \<in> (\<Union>t \<in> set (stage_tasks st gi b p). {begin_idx t..<end_idx t})"
  then show "x \<in> {0..<b}" by (auto simp: stage_tasks_def mk_task_def)
next
  fix x
  assume "x \<in> {0..<b}"
  then have xb: "x < b" by simp
  let ?k = "x div p"
  have lo: "?k * p \<le> x" by simp
  have hi: "x < ?k * p + p" using p dividend_less_div_times [of p x] by (simp add: add.commute)
  from lo xb have "?k * p < b" by (rule le_less_trans)
  then have k: "?k < ceil_div b p" using less_ceil_div_iff [OF p] by simp
  have "x \<in> {begin_idx (mk_task st gi b p ?k)..<end_idx (mk_task st gi b p ?k)}"
    using lo hi xb by (simp add: mk_task_def)
  moreover have "mk_task st gi b p ?k \<in> set (stage_tasks st gi b p)"
    using k by (simp add: stage_tasks_def)
  ultimately show "x \<in> (\<Union>t \<in> set (stage_tasks st gi b p). {begin_idx t..<end_idx t})"
    by blast
qed

lemma stage_tasks_nth:
  "length (stage_tasks st gi b p) = ceil_div b p \<and>
   (\<forall>k < ceil_div b p.
      stage_tasks st gi b p ! k =
        \<lparr>stage = st, group_idx = gi, max_idx = b, begin_idx = k * p, end_idx = min (k * p + p) b\<rparr>)"
  by (simp add: stage_tasks_def mk_task_def)

lemma partition_blocks_of_props:
  "length (partition_blocks_of whg) = length whg"
  "map fst (partition_blocks_of whg) = map block_count whg"
  "map snd (partition_blocks_of whg) = [0..<length whg]"
  by (simp_all add: partition_blocks_of_def)

lemma partition_blocks_of_mem:
  "pb \<in> set (partition_blocks_of whg) \<longleftrightarrow> snd pb < length whg \<and> fst pb = block_count (whg ! snd pb)"
proof (cases pb)
  case (Pair b i)
  show ?thesis
  proof
    assume "pb \<in> set (partition_blocks_of whg)"
    then show "snd pb < length whg \<and> fst pb = block_count (whg ! snd pb)"
      unfolding Pair by (auto simp: partition_blocks_of_def set_zip)
  next
    assume a: "snd pb < length whg \<and> fst pb = block_count (whg ! snd pb)"
    then have "(b, i) = (map block_count whg ! i, [0..<length whg] ! i)" "i < length whg"
      unfolding Pair by simp_all
    then show "pb \<in> set (partition_blocks_of whg)"
      unfolding Pair partition_blocks_of_def set_zip by (auto intro!: exI [of _ i])
  qed
qed

lemma ctor_run:
  assumes cg: "collect_groups align gp0 = Inr gp"
    and ne: "window_hash_groups gp \<noteq> []"
    and pop: "\<forall>w \<in> set (window_hash_groups gp). populated w"
    and T: "0 < threads"
  shows "WindowGlobalSourceState_ctor align threads gp0 =
         Some (Inr (emitted
           (concat (map (group_tasks (per_thread_of threads (window_hash_groups gp)))
                        (sort_greater (partition_blocks_of (window_hash_groups gp)))))
           (bump_all (per_thread_of threads (window_hash_groups gp))
                     (sort_greater (partition_blocks_of (window_hash_groups gp))))
           (initial_source gp)))"
proof -
  let ?whg = "window_hash_groups gp"
  let ?raw = "partition_blocks_of ?whg"
  let ?pbs = "sort_greater ?raw"
  let ?p = "per_thread_of threads ?whg"
  have pbl: "partition_blocks_loop ?whg 0 = Inr ?raw"
    using partition_blocks_loop_populated [OF pop, of 0] by (simp add: partition_blocks_of_def)
  have ne0: "?raw \<noteq> []" using ne by (simp add: partition_blocks_of_def)
  then have nes: "?pbs \<noteq> []"
    using sort_greater_length [of ?raw] by (metis length_0_conv)
  then obtain mb rest where mb: "?pbs = mb # rest" by (cases ?pbs) auto
  have "fst mb = fst (hd ?pbs)" using mb by simp
  also have "\<dots> = Max (fst ` set ?raw)" by (rule sort_greater_hd [OF ne0])
  also have "fst ` set ?raw = set (map block_count ?whg)"
    using partition_blocks_of_props(2) [of ?whg] by (metis set_map)
  finally have M: "fst mb = Max (set (map block_count ?whg))" .
  have p: "(fst mb + threads - 1) div threads = ?p"
    by (simp add: per_thread_of_def ceil_div_def M)
  have le: "\<forall>pb \<in> set ?pbs. fst pb \<le> Max (set (map block_count ?whg))"
    by (auto simp: sort_greater_set partition_blocks_of_mem)
  have pp: "\<forall>pb \<in> set ?pbs. 0 < ?p \<or> fst pb = 0"
  proof
    fix pb assume "pb \<in> set ?pbs"
    with le have "fst pb \<le> Max (set (map block_count ?whg))" by blast
    then show "0 < ?p \<or> fst pb = 0"
      using ceil_div_pos_iff [OF T, of "Max (set (map block_count ?whg))"]
      by (auto simp: per_thread_of_def)
  qed
  have gi: "\<forall>pb \<in> set ?pbs.
              snd pb < length (window_hash_groups (global_partition (initial_source gp))) \<and>
              window_hash_groups (global_partition (initial_source gp)) ! snd pb \<noteq> None"
    using pop by (auto simp: sort_greater_set partition_blocks_of_mem populated_def
                       split: option.splits)
  have run: "blocks_loop ?p ?pbs [SINK, FINALIZE, GETDATA] (initial_source gp) =
             Some (Inr (emitted (concat (map (group_tasks ?p) ?pbs)) (bump_all ?p ?pbs)
                         (initial_source gp)))"
    by (rule blocks_loop_run [OF pp gi])
  have "WindowGlobalSourceState_ctor align threads gp0 =
        blocks_loop ((fst mb + threads - 1) div threads) ?pbs [SINK, FINALIZE, GETDATA]
          (initial_source gp)"
    unfolding WindowGlobalSourceState_ctor_def
    using cg ne pbl T by (simp add: Let_def mb)
  then show ?thesis unfolding p run .
qed

lemma ctor_null:
  assumes cg: "collect_groups align gp0 = Inr gp"
    and ne: "window_hash_groups gp \<noteq> []"
    and pop: "\<not> (\<forall>w \<in> set (window_hash_groups gp). populated w)"
  shows "WindowGlobalSourceState_ctor align threads gp0 = Some (Inl NullDereference)"
  unfolding WindowGlobalSourceState_ctor_def
  using cg ne partition_blocks_loop_null [OF pop, of 0] by (simp add: Let_def)

lemma collect_groups_nonempty:
  assumes "window_hash_groups gp0 \<noteq> []"
  shows "collect_groups align gp0 =
         Inr (gp0\<lparr>window_hash_groups := batch_base_loop 0 (window_hash_groups gp0)\<rparr>)"
  using assms by (simp add: collect_groups_def)

lemma set_populated_batch_base_loop:
  "(\<forall>w \<in> set (batch_base_loop bb ws). populated w) \<longleftrightarrow> (\<forall>w \<in> set ws. populated w)"
proof -
  have "(\<forall>w \<in> set ws. populated w) \<longleftrightarrow> (\<forall>b \<in> set (map populated ws). b)" for ws
    by auto
  then show ?thesis by (simp only: batch_base_loop_populated)
qed

lemma stage_tasks_cover':
  assumes "0 < p \<or> b = 0"
  shows "(\<Union>t \<in> set (stage_tasks st gi b p). {begin_idx t..<end_idx t}) = {0..<b}"
proof (cases "0 < p")
  case True
  then show ?thesis by (rule stage_tasks_cover)
next
  case False
  with assms have "b = 0" by simp
  then show ?thesis by (simp add: stage_tasks_def ceil_div_0)
qed

lemma partition_blocks_of_distinct: "distinct (map snd (partition_blocks_of whg))"
  by (simp add: partition_blocks_of_props)

text \<open>
  Claim C3.  Let the groups collected by the constructor be non-empty in number, each in
  its slot with rows and with \<^verbatim>\<open>tasks_remaining = 0\<close>, and let there be at least one thread.
  Then the constructor returns, and its task list is, for the groups in the order of
  \<^verbatim>\<open>std::sort\<close> with \<^verbatim>\<open>std::greater\<close> (descending in the block count) and for the stages SINK,
  FINALIZE, GETDATA in that order, the tasks of that stage of that group.  The stride is
  \<open>per_thread = \<lceil>M / T\<rceil>\<close>, with \<open>M\<close> the largest block count and \<open>T\<close> the number of threads.
  The tasks of a stage of a group with \<open>b\<close> blocks are \<open>\<lceil>b / per_thread\<rceil>\<close> in number, the \<open>k\<close>-th
  from block \<open>k * per_thread\<close> to \<open>min (k * per_thread + per_thread) b\<close>, and their block
  ranges cover exactly \<open>[0, b)\<close>.  After construction \<^verbatim>\<open>tasks_remaining\<close> of a group with \<open>b\<close>
  blocks is \<open>3 * \<lceil>b / per_thread\<rceil>\<close>.
\<close>

theorem ctor_builds_task_list:
  assumes cg: "collect_groups align gp0 = Inr gp"
    and ne: "window_hash_groups gp \<noteq> []"
    and pop: "\<forall>w \<in> set (window_hash_groups gp). populated w \<and> map_option tasks_remaining w = Some 0"
    and T: "0 < threads"
  shows "(\<exists>gs. WindowGlobalSourceState_ctor align threads gp0 = Some (Inr gs) \<and>
            next_task gs = 0 \<and>
            tasks gs =
              concat (map (\<lambda>pb. concat (map (\<lambda>st. stage_tasks st (snd pb) (fst pb)
                                                   (per_thread_of threads (window_hash_groups gp)))
                                            [SINK, FINALIZE, GETDATA]))
                          (sort_greater (partition_blocks_of (window_hash_groups gp)))) \<and>
            length (window_hash_groups (global_partition gs)) = length (window_hash_groups gp) \<and>
            (\<forall>i < length (window_hash_groups gp).
               map_option tasks_remaining (window_hash_groups (global_partition gs) ! i) =
                 Some (3 * ceil_div (block_count (window_hash_groups gp ! i))
                                    (per_thread_of threads (window_hash_groups gp))))) \<and>
         per_thread_of threads (window_hash_groups gp) =
           (Max (set (map block_count (window_hash_groups gp))) + threads - 1) div threads \<and>
         set (sort_greater (partition_blocks_of (window_hash_groups gp))) =
           {(block_count (window_hash_groups gp ! i), i) | i. i < length (window_hash_groups gp)} \<and>
         distinct (map snd (sort_greater (partition_blocks_of (window_hash_groups gp)))) \<and>
         sorted (rev (map fst (sort_greater (partition_blocks_of (window_hash_groups gp))))) \<and>
         (\<forall>pb \<in> set (sort_greater (partition_blocks_of (window_hash_groups gp))). \<forall>st.
            length (stage_tasks st (snd pb) (fst pb) (per_thread_of threads (window_hash_groups gp))) =
              ceil_div (fst pb) (per_thread_of threads (window_hash_groups gp)) \<and>
            (\<forall>k < ceil_div (fst pb) (per_thread_of threads (window_hash_groups gp)).
               stage_tasks st (snd pb) (fst pb) (per_thread_of threads (window_hash_groups gp)) ! k =
                 \<lparr>stage = st, group_idx = snd pb, max_idx = fst pb,
                  begin_idx = k * per_thread_of threads (window_hash_groups gp),
                  end_idx = min (k * per_thread_of threads (window_hash_groups gp) +
                                 per_thread_of threads (window_hash_groups gp)) (fst pb)\<rparr>) \<and>
            (\<Union>t \<in> set (stage_tasks st (snd pb) (fst pb) (per_thread_of threads (window_hash_groups gp))).
               {begin_idx t..<end_idx t}) = {0..<fst pb})"
proof -
  let ?whg = "window_hash_groups gp"
  let ?pbs = "sort_greater (partition_blocks_of ?whg)"
  let ?p = "per_thread_of threads ?whg"
  let ?gs = "emitted (concat (map (group_tasks ?p) ?pbs)) (bump_all ?p ?pbs) (initial_source gp)"
  have pop': "\<forall>w \<in> set ?whg. populated w" using pop by blast
  have run: "WindowGlobalSourceState_ctor align threads gp0 = Some (Inr ?gs)"
    by (rule ctor_run [OF cg ne pop' T])
  have dist: "distinct (map snd ?pbs)"
    by (rule sort_greater_distinct [OF partition_blocks_of_distinct])
  have tr: "\<forall>i < length ?whg.
              map_option tasks_remaining (window_hash_groups (global_partition ?gs) ! i) =
                Some (3 * ceil_div (block_count (?whg ! i)) ?p)"
  proof (intro allI impI)
    fix i assume i: "i < length ?whg"
    let ?pb = "(block_count (?whg ! i), i)"
    have mem: "?pb \<in> set ?pbs"
      using i by (simp add: sort_greater_set partition_blocks_of_mem)
    have sum: "sum_list (map (\<lambda>q. if snd q = i then 3 * ceil_div (fst q) ?p else 0) ?pbs) =
               3 * ceil_div (block_count (?whg ! i)) ?p"
      using sum_list_single [OF dist mem, of "\<lambda>q. 3 * ceil_div (fst q) ?p"] by simp
    from pop i have zero: "map_option tasks_remaining (?whg ! i) = Some 0"
      using nth_mem by blast
    then obtain g where g: "?whg ! i = Some g" "tasks_remaining g = 0" by auto
    have groups: "window_hash_groups (global_partition ?gs) = bump_all ?p ?pbs ?whg"
      by (simp add: emitted_groups)
    have "bump_all ?p ?pbs ?whg ! i =
            Some (g\<lparr>tasks_remaining := 3 * ceil_div (block_count (?whg ! i)) ?p\<rparr>)"
      unfolding bump_all_nth [OF i] sum using g by simp
    then show "map_option tasks_remaining (window_hash_groups (global_partition ?gs) ! i) =
            Some (3 * ceil_div (block_count (?whg ! i)) ?p)"
      unfolding groups by simp
  qed
  have tasks: "tasks ?gs =
      concat (map (\<lambda>pb. concat (map (\<lambda>st. stage_tasks st (snd pb) (fst pb) ?p)
                                    [SINK, FINALIZE, GETDATA])) ?pbs)"
    by (simp add: emitted_def group_tasks_def [abs_def])
  have len: "length (window_hash_groups (global_partition ?gs)) = length ?whg"
    by (simp add: emitted_groups bump_all_length)
  have nt: "next_task ?gs = 0" by (simp add: emitted_def)
  have first: "\<exists>gs. WindowGlobalSourceState_ctor align threads gp0 = Some (Inr gs) \<and>
            next_task gs = 0 \<and>
            tasks gs =
              concat (map (\<lambda>pb. concat (map (\<lambda>st. stage_tasks st (snd pb) (fst pb) ?p)
                                            [SINK, FINALIZE, GETDATA])) ?pbs) \<and>
            length (window_hash_groups (global_partition gs)) = length ?whg \<and>
            (\<forall>i < length ?whg.
               map_option tasks_remaining (window_hash_groups (global_partition gs) ! i) =
                 Some (3 * ceil_div (block_count (?whg ! i)) ?p))"
    using run nt tasks len tr by blast
  have pdef: "?p = (Max (set (map block_count ?whg)) + threads - 1) div threads"
    by (simp add: per_thread_of_def ceil_div_def)
  have setp: "set ?pbs = {(block_count (?whg ! i), i) | i. i < length ?whg}"
    by (auto simp: sort_greater_set partition_blocks_of_mem)
  have desc: "sorted (rev (map fst ?pbs))" by (rule sort_greater_blocks_descending)
  have pp: "\<forall>pb \<in> set ?pbs. 0 < ?p \<or> fst pb = 0"
  proof
    fix pb assume "pb \<in> set ?pbs"
    then have "fst pb \<le> Max (set (map block_count ?whg))"
      by (auto simp: sort_greater_set partition_blocks_of_mem)
    then show "0 < ?p \<or> fst pb = 0"
      using ceil_div_pos_iff [OF T, of "Max (set (map block_count ?whg))"]
      by (auto simp: per_thread_of_def)
  qed
  have cover: "\<forall>pb \<in> set ?pbs. \<forall>st.
            length (stage_tasks st (snd pb) (fst pb) ?p) = ceil_div (fst pb) ?p \<and>
            (\<forall>k < ceil_div (fst pb) ?p.
               stage_tasks st (snd pb) (fst pb) ?p ! k =
                 \<lparr>stage = st, group_idx = snd pb, max_idx = fst pb, begin_idx = k * ?p,
                  end_idx = min (k * ?p + ?p) (fst pb)\<rparr>) \<and>
            (\<Union>t \<in> set (stage_tasks st (snd pb) (fst pb) ?p). {begin_idx t..<end_idx t}) =
              {0..<fst pb}"
    using pp stage_tasks_nth stage_tasks_cover' by blast
  from first pdef setp dist desc cover show ?thesis by blast
qed

theorem ctor_builds_task_list_witness:
  "\<exists>gs. WindowGlobalSourceState_ctor (\<lambda>r s. (r, s)) 2
           (ex_gpart [Some (ex_blocks_group [2] 0 0), Some (ex_blocks_group [2, 2, 1] 0 0)]) =
           Some (Inr gs) \<and>
         tasks gs =
           [\<lparr>stage = SINK, group_idx = 1, max_idx = 3, begin_idx = 0, end_idx = 2\<rparr>,
            \<lparr>stage = SINK, group_idx = 1, max_idx = 3, begin_idx = 2, end_idx = 3\<rparr>,
            \<lparr>stage = FINALIZE, group_idx = 1, max_idx = 3, begin_idx = 0, end_idx = 2\<rparr>,
            \<lparr>stage = FINALIZE, group_idx = 1, max_idx = 3, begin_idx = 2, end_idx = 3\<rparr>,
            \<lparr>stage = GETDATA, group_idx = 1, max_idx = 3, begin_idx = 0, end_idx = 2\<rparr>,
            \<lparr>stage = GETDATA, group_idx = 1, max_idx = 3, begin_idx = 2, end_idx = 3\<rparr>,
            \<lparr>stage = SINK, group_idx = 0, max_idx = 1, begin_idx = 0, end_idx = 1\<rparr>,
            \<lparr>stage = FINALIZE, group_idx = 0, max_idx = 1, begin_idx = 0, end_idx = 1\<rparr>,
            \<lparr>stage = GETDATA, group_idx = 0, max_idx = 1, begin_idx = 0, end_idx = 1\<rparr>] \<and>
         map_option tasks_remaining (window_hash_groups (global_partition gs) ! 0) = Some 3 \<and>
         map_option tasks_remaining (window_hash_groups (global_partition gs) ! 1) = Some 6"
proof -
  let ?init = "ex_gpart [Some (ex_blocks_group [2] 0 0), Some (ex_blocks_group [2, 2, 1] 0 0)]"
  let ?gp = "ex_gpart [Some (ex_blocks_group [2] 0 0), Some (ex_blocks_group [2, 2, 1] 0 1)]"
  have cg: "collect_groups (\<lambda>r s. (r, s)) ?init = Inr ?gp"
    by (simp add: collect_groups_def)
  have ne: "window_hash_groups ?gp \<noteq> []" by simp
  have pop: "\<forall>w \<in> set (window_hash_groups ?gp). populated w \<and> map_option tasks_remaining w = Some 0"
    by (simp add: populated_def)
  have T: "0 < (2::nat)" by simp
  have p: "per_thread_of 2 (window_hash_groups ?gp) = 2"
    by (simp add: per_thread_of_def ceil_div_def block_count_def)
  have pbs: "sort_greater (partition_blocks_of (window_hash_groups ?gp)) = [(3, 1), (1, 0)]"
    by (simp add: sort_greater_def partition_blocks_of_def block_count_def upt_rec)
  have st3: "\<And>st. stage_tasks st (Suc 0) 3 2 =
      [\<lparr>stage = st, group_idx = 1, max_idx = 3, begin_idx = 0, end_idx = 2\<rparr>,
       \<lparr>stage = st, group_idx = 1, max_idx = 3, begin_idx = 2, end_idx = 3\<rparr>]"
    by (simp add: stage_tasks_def mk_task_def ceil_div_def upt_rec)
  have st1: "\<And>st. stage_tasks st 0 (Suc 0) 2 =
      [\<lparr>stage = st, group_idx = 0, max_idx = 1, begin_idx = 0, end_idx = 1\<rparr>]"
    by (simp add: stage_tasks_def mk_task_def ceil_div_def upt_rec)
  have c3: "ceil_div (Suc (Suc (Suc 0))) 2 = 2" and c1: "ceil_div (Suc 0) 2 = 1"
    by (simp_all add: ceil_div_def)
  from ctor_builds_task_list [OF cg ne pop T] obtain gs where
    a: "WindowGlobalSourceState_ctor (\<lambda>r s. (r, s)) 2 ?init = Some (Inr gs)" and
    b: "tasks gs =
          concat (map (\<lambda>pb. concat (map (\<lambda>st. stage_tasks st (snd pb) (fst pb)
                                               (per_thread_of 2 (window_hash_groups ?gp)))
                                        [SINK, FINALIZE, GETDATA]))
                      (sort_greater (partition_blocks_of (window_hash_groups ?gp))))" and
    c: "\<forall>i < length (window_hash_groups ?gp).
          map_option tasks_remaining (window_hash_groups (global_partition gs) ! i) =
            Some (3 * ceil_div (block_count (window_hash_groups ?gp ! i))
                               (per_thread_of 2 (window_hash_groups ?gp)))"
    by blast
  have t: "tasks gs =
           [\<lparr>stage = SINK, group_idx = 1, max_idx = 3, begin_idx = 0, end_idx = 2\<rparr>,
            \<lparr>stage = SINK, group_idx = 1, max_idx = 3, begin_idx = 2, end_idx = 3\<rparr>,
            \<lparr>stage = FINALIZE, group_idx = 1, max_idx = 3, begin_idx = 0, end_idx = 2\<rparr>,
            \<lparr>stage = FINALIZE, group_idx = 1, max_idx = 3, begin_idx = 2, end_idx = 3\<rparr>,
            \<lparr>stage = GETDATA, group_idx = 1, max_idx = 3, begin_idx = 0, end_idx = 2\<rparr>,
            \<lparr>stage = GETDATA, group_idx = 1, max_idx = 3, begin_idx = 2, end_idx = 3\<rparr>,
            \<lparr>stage = SINK, group_idx = 0, max_idx = 1, begin_idx = 0, end_idx = 1\<rparr>,
            \<lparr>stage = FINALIZE, group_idx = 0, max_idx = 1, begin_idx = 0, end_idx = 1\<rparr>,
            \<lparr>stage = GETDATA, group_idx = 0, max_idx = 1, begin_idx = 0, end_idx = 1\<rparr>]"
    unfolding b p pbs by (simp add: st3 st1)
  have r0: "map_option tasks_remaining (window_hash_groups (global_partition gs) ! 0) = Some 3"
    using c [rule_format, of 0] unfolding p by (simp add: block_count_def c1)
  have r1: "map_option tasks_remaining (window_hash_groups (global_partition gs) ! 1) = Some 6"
    using c [rule_format, of 1] unfolding p by (simp add: block_count_def c3)
  from a t r0 r1 show ?thesis by blast
qed

subsection \<open>Null slots and groups without rows\<close>

lemma batch_base_loop_Nil_iff: "batch_base_loop bb ws = [] \<longleftrightarrow> ws = []"
  using batch_base_loop_length [of bb ws] by (metis length_0_conv)

lemma resize_empty: "resize [] n = replicate n None"
  by (simp add: resize_def)

text \<open>
  Claim C9.  With a non-empty vector of groups, the constructor throws on a null
  dereference as soon as one slot is null or holds a group without rows; with at least
  one thread it returns if and only if every slot holds a group with rows.  The loop
  before it, which assigns \<^verbatim>\<open>batch_base\<close>, skips such slots: it keeps the length of the vector
  and which slots are populated.  In particular the vector as \<^verbatim>\<open>OnBeginMerge\<close> leaves it,
  with no slot filled by \<^verbatim>\<open>OnSortedPartition\<close> yet, makes the constructor throw.
\<close>

theorem ctor_needs_populated_slots:
  assumes ne: "window_hash_groups gp0 \<noteq> []"
  shows "(\<not> (\<forall>w \<in> set (window_hash_groups gp0). populated w) \<longrightarrow>
            WindowGlobalSourceState_ctor align threads gp0 = Some (Inl NullDereference)) \<and>
         (0 < threads \<longrightarrow>
            ((\<exists>gs. WindowGlobalSourceState_ctor align threads gp0 = Some (Inr gs)) \<longleftrightarrow>
             (\<forall>w \<in> set (window_hash_groups gp0). populated w))) \<and>
         length (batch_base_loop 0 (window_hash_groups gp0)) = length (window_hash_groups gp0) \<and>
         map populated (batch_base_loop 0 (window_hash_groups gp0)) =
           map populated (window_hash_groups gp0) \<and>
         (window_hash_groups gp1 = [] \<and> hash_groups gp1 \<noteq> [] \<longrightarrow>
            WindowGlobalSourceState_ctor align threads (OnBeginMerge gp1) =
              Some (Inl NullDereference))"
proof -
  let ?gp = "gp0\<lparr>window_hash_groups := batch_base_loop 0 (window_hash_groups gp0)\<rparr>"
  have cg: "collect_groups align gp0 = Inr ?gp"
    by (rule collect_groups_nonempty [OF ne])
  have ne': "window_hash_groups ?gp \<noteq> []"
    using ne by (simp add: batch_base_loop_Nil_iff)
  have pop_iff: "(\<forall>w \<in> set (window_hash_groups ?gp). populated w) \<longleftrightarrow>
                 (\<forall>w \<in> set (window_hash_groups gp0). populated w)"
    by (simp add: set_populated_batch_base_loop)
  have null: "\<not> (\<forall>w \<in> set (window_hash_groups gp0). populated w) \<longrightarrow>
            WindowGlobalSourceState_ctor align threads gp0 = Some (Inl NullDereference)"
    using ctor_null [OF cg ne'] pop_iff by blast
  have ok: "0 < threads \<longrightarrow>
            ((\<exists>gs. WindowGlobalSourceState_ctor align threads gp0 = Some (Inr gs)) \<longleftrightarrow>
             (\<forall>w \<in> set (window_hash_groups gp0). populated w))"
  proof (intro impI iffI)
    assume "0 < threads" "\<forall>w \<in> set (window_hash_groups gp0). populated w"
    then show "\<exists>gs. WindowGlobalSourceState_ctor align threads gp0 = Some (Inr gs)"
      using ctor_run [OF cg ne'] pop_iff by blast
  next
    assume "\<exists>gs. WindowGlobalSourceState_ctor align threads gp0 = Some (Inr gs)"
    then show "\<forall>w \<in> set (window_hash_groups gp0). populated w"
      using null by auto
  qed
  have merge: "window_hash_groups gp1 = [] \<and> hash_groups gp1 \<noteq> [] \<longrightarrow>
            WindowGlobalSourceState_ctor align threads (OnBeginMerge gp1) =
              Some (Inl NullDereference)"
  proof
    assume a: "window_hash_groups gp1 = [] \<and> hash_groups gp1 \<noteq> []"
    let ?m = "OnBeginMerge gp1"
    have whg: "window_hash_groups ?m = replicate (length (hash_groups gp1)) None"
      using a by (simp add: OnBeginMerge_def resize_empty)
    have nem: "window_hash_groups ?m \<noteq> []" using a whg by simp
    have "None \<in> set (window_hash_groups ?m)" using a whg by simp
    then have bad: "\<not> (\<forall>w \<in> set (window_hash_groups ?m). populated w)"
      using populated_simps(1) by blast
    let ?gpm = "?m\<lparr>window_hash_groups := batch_base_loop 0 (window_hash_groups ?m)\<rparr>"
    have cgm: "collect_groups align ?m = Inr ?gpm"
      by (rule collect_groups_nonempty [OF nem])
    have nem': "window_hash_groups ?gpm \<noteq> []"
      using nem by (simp add: batch_base_loop_Nil_iff)
    have "\<not> (\<forall>w \<in> set (window_hash_groups ?gpm). populated w)"
      using bad by (simp add: set_populated_batch_base_loop)
    from ctor_null [OF cgm nem' this]
    show "WindowGlobalSourceState_ctor align threads ?m = Some (Inl NullDereference)" .
  qed
  from null ok merge show ?thesis
    by (simp add: batch_base_loop_length batch_base_loop_populated)
qed

theorem ctor_needs_populated_slots_witness:
  "WindowGlobalSourceState_ctor (\<lambda>r s. (r, s)) 2
     (ex_gpart [Some (ex_blocks_group [2] 0 0), None]) = Some (Inl NullDereference) \<and>
   WindowGlobalSourceState_ctor (\<lambda>r s. (r, s)) 2
     (ex_gpart [Some (ex_blocks_group [2] 0 0), Some (new_WindowHashGroup 1)]) =
     Some (Inl NullDereference) \<and>
   batch_base_loop 0 [Some (ex_blocks_group [2] 0 0), None, Some (new_WindowHashGroup 2),
                      Some (ex_blocks_group [2, 2, 1] 0 0)] =
     [Some (ex_blocks_group [2] 0 0), None, Some (new_WindowHashGroup 2),
      Some (ex_blocks_group [2, 2, 1] 0 1)] \<and>
   WindowGlobalSourceState_ctor (\<lambda>r s. (r, s)) 2 (OnBeginMerge (ex_gpart [])) =
     Some (Inl NullDereference) \<and>
   (\<exists>gs. WindowGlobalSourceState_ctor (\<lambda>r s. (r, s)) 2
           (ex_gpart [Some (ex_blocks_group [2] 0 0), Some (ex_blocks_group [2, 2, 1] 0 0)]) =
         Some (Inr gs))"
  using ctor_needs_populated_slots
          [of "ex_gpart [Some (ex_blocks_group [2] 0 0), None]" "\<lambda>r s. (r, s)" 2 "ex_gpart []"]
        ctor_needs_populated_slots
          [of "ex_gpart [Some (ex_blocks_group [2] 0 0), Some (new_WindowHashGroup 1)]"
              "\<lambda>r s. (r, s)" 2 "ex_gpart []"]
        ctor_needs_populated_slots
          [of "ex_gpart [Some (ex_blocks_group [2] 0 0), Some (ex_blocks_group [2, 2, 1] 0 0)]"
              "\<lambda>r s. (r, s)" 2 "ex_gpart []"]
  by (simp add: populated_def new_WindowHashGroup_def)

subsection \<open>The batch index of a worker\<close>
























subsection \<open>The stages of a group\<close>

text \<open>
  A group as its constructor leaves it; the groups the tasks of the source state belong
  to; and the stage in which a SINK or a FINALIZE task is dispensed.
\<close>

lemma WindowHashGroup_ctor_fresh:
  assumes "WindowHashGroup_ctor align gpart hash_bin_p = Inr (g, gpart')"
  shows "sunk g = 0 \<and> finalized g = 0 \<and> tasks_remaining g = 0 \<and>
         (\<forall>r. rows g = Some r \<longrightarrow> blocks g = length (rdc_blocks r))"
  using assms
  by (auto simp: WindowHashGroup_ctor_def WindowHashGroup_scan_def MaterializeSortedData_def
                 new_WindowHashGroup_def set_blocks_def Let_def
           split: if_splits option.splits sum.splits prod.splits list.splits)

lemma group_tasks_blocks:
  assumes "t \<in> set (group_tasks p pb)"
  shows "group_idx t = snd pb \<and> 0 < fst pb \<and> begin_idx t < fst pb"
proof -
  from assms obtain st k where k: "k < ceil_div (fst pb) p"
    and t: "t = mk_task st (snd pb) (fst pb) p k"
    by (auto simp: group_tasks_def stage_tasks_def)
  have pos: "0 < fst pb" using k ceil_div_0 [of p] by (cases "fst pb = 0") auto
  have "0 < p" using k by (cases "p = 0") (auto simp: ceil_div_def)
  from less_ceil_div_iff [OF this, of k "fst pb"] k have "k * p < fst pb" by simp
  with t pos show ?thesis by (simp add: mk_task_def)
qed

lemma ctor_tasks_have_blocks:
  assumes ctor: "WindowGlobalSourceState_ctor align threads gp0 = Some (Inr gs)"
    and ti: "ti < length (tasks gs)"
  shows "\<exists>g r. deref_group gs (group_idx (tasks gs ! ti)) = Inr g \<and> rows g = Some r \<and>
               0 < length (rdc_blocks r)"
proof -
  from ctor obtain gp where cg: "collect_groups align gp0 = Inr gp"
    by (cases "collect_groups align gp0") (auto simp: WindowGlobalSourceState_ctor_def)
  let ?whg = "window_hash_groups gp"
  let ?p = "per_thread_of threads ?whg"
  let ?pbs = "sort_greater (partition_blocks_of ?whg)"
  have ne: "?whg \<noteq> []"
  proof
    assume "?whg = []"
    with ctor cg have "tasks gs = []" by (auto simp: WindowGlobalSourceState_ctor_def Let_def)
    with ti show False by simp
  qed
  have pop: "\<forall>w \<in> set ?whg. populated w"
  proof (rule ccontr)
    assume "\<not> ?thesis"
    from ctor_null [OF cg ne this, of threads] ctor show False by simp
  qed
  have T: "0 < threads"
  proof (rule ccontr)
    assume "\<not> ?thesis"
    with ctor cg ne show False
      by (auto simp: WindowGlobalSourceState_ctor_def Let_def split: sum.splits list.splits)
  qed
  from ctor_run [OF cg ne pop T] ctor
  have gs: "gs = emitted (concat (map (group_tasks ?p) ?pbs)) (bump_all ?p ?pbs) (initial_source gp)"
    by simp
  then have tasks: "tasks gs = concat (map (group_tasks ?p) ?pbs)"
    and whg: "window_hash_groups (global_partition gs) = bump_all ?p ?pbs ?whg"
    by (simp_all add: emitted_def)
  from ti have "tasks gs ! ti \<in> set (tasks gs)" by simp
  with tasks obtain pb where pb: "pb \<in> set ?pbs" and t: "tasks gs ! ti \<in> set (group_tasks ?p pb)"
    by auto
  from pb have mem: "snd pb < length ?whg" "fst pb = block_count (?whg ! snd pb)"
    by (simp_all add: sort_greater_set partition_blocks_of_mem)
  from group_tasks_blocks [OF t] have gi: "group_idx (tasks gs ! ti) = snd pb" and pos: "0 < fst pb"
    by simp_all
  from mem(1) pop have "populated (?whg ! snd pb)" by simp
  then obtain g r where g: "?whg ! snd pb = Some g" and r: "rows g = Some r"
    by (auto simp: populated_def split: option.splits)
  from mem(2) pos g r have b: "0 < length (rdc_blocks r)" by (simp add: block_count_def)
  from bump_all_nth [OF mem(1), of ?p ?pbs] g
  obtain n where "bump_all ?p ?pbs ?whg ! snd pb = Some (g\<lparr>tasks_remaining := n\<rparr>)" by simp
  with whg mem(1) gi have "deref_group gs (group_idx (tasks gs ! ti)) = Inr (g\<lparr>tasks_remaining := n\<rparr>)"
    by (simp add: deref_group_def bump_all_length)
  with r b show ?thesis by simp
qed

lemma TryNextTask_FINALIZE:
  assumes "TryNextTask gs = (Inr True, Some ti, gs')"
    and "stage (tasks gs ! ti) = FINALIZE"
  shows "\<exists>g. deref_group gs (group_idx (tasks gs ! ti)) = Inr g \<and> sunk g = count g \<and>
             finalized g \<noteq> blocks g"
  using assms
  by (auto simp: TryNextTask_def Let_def GetStage_simps split: if_splits sum.splits)

lemma TryNextTask_SINK:
  assumes "TryNextTask gs = (Inr True, Some ti, gs')"
    and "stage (tasks gs ! ti) = SINK"
  shows "\<exists>g. deref_group gs (group_idx (tasks gs ! ti)) = Inr g \<and> sunk g \<noteq> count g \<and>
             finalized g \<noteq> blocks g"
  using assms
  by (auto simp: TryNextTask_def Let_def GetStage_simps split: if_splits sum.splits)

text \<open>
  \<^verbatim>\<open>Sink\<close> changes the group of the worker by adding to \<^verbatim>\<open>sunk\<close> only, \<^verbatim>\<open>Finalize\<close> by adding
  to \<^verbatim>\<open>finalized\<close> only.
\<close>

lemma deref_group_set_group:
  "deref_group gs gi = Inr g \<Longrightarrow> deref_group (set_group gi (Some g') gs) gi = Inr g'"
  by (auto simp: deref_group_def set_group_def split: if_splits option.splits)

lemma deref_group_set_begin_idx: "deref_group (set_begin_idx ti b gs) gi = deref_group gs gi"
  by (simp add: deref_group_def set_begin_idx_def)

lemma sink_scan_sunk:
  "deref_group gs gi = Inr g \<Longrightarrow>
   \<exists>n. deref_group (snd (snd (sink_scan X gi sc gs))) gi = Inr (g\<lparr>sunk := sunk g + n\<rparr>)"
proof (induction X gi sc gs arbitrary: g rule: sink_scan.induct)
  case (1 X gi sc gs)
  have same: "\<exists>n. deref_group gs gi = Inr (g\<lparr>sunk := sunk g + n\<rparr>)"
    using "1.prems" by (intro exI [of _ 0]) simp
  show ?case
  proof (cases "min (vector_size X) (Remaining sc) = 0 \<or> executor_throws X SINK gi (sc_block sc)")
    case True
    with same show ?thesis by (subst sink_scan.simps) auto
  next
    case False
    let ?g1 = "g\<lparr>sunk := sunk g + fst (Scan (vector_size X) sc)\<rparr>"
    from "1.prems" have d: "deref_group (set_group gi (Some ?g1) gs) gi = Inr ?g1"
      by (rule deref_group_set_group)
    from "1.IH" [of g ?g1] False "1.prems" d
    obtain n where n:
      "deref_group (snd (snd (sink_scan X gi (snd (Scan (vector_size X) sc))
                                (set_group gi (Some ?g1) gs)))) gi =
       Inr (?g1\<lparr>sunk := sunk ?g1 + n\<rparr>)"
      by (auto simp del: sink_scan.simps)
    have step: "sink_scan X gi sc gs =
                sink_scan X gi (snd (Scan (vector_size X) sc)) (set_group gi (Some ?g1) gs)"
      using False "1.prems" by (subst sink_scan.simps) (auto simp del: sink_scan.simps)
    have "deref_group (snd (snd (sink_scan X gi sc gs))) gi =
               Inr (g\<lparr>sunk := sunk g + (fst (Scan (vector_size X) sc) + n)\<rparr>)"
      unfolding step n by (simp add: add.assoc)
    then show ?thesis by blast
  qed
qed

lemma sink_blocks_sunk:
  "deref_group gs gi = Inr g \<Longrightarrow>
   \<exists>n. deref_group (snd (snd (sink_blocks X ti gi bs ls gs))) gi = Inr (g\<lparr>sunk := sunk g + n\<rparr>)"
proof (induction X ti gi bs ls gs arbitrary: g rule: sink_blocks.induct)
  case (1 X ti gi ls gs)
  then show ?case by (intro exI [of _ 0]) simp
next
  case (2 X ti gi b bs ls gs)
  have same: "\<exists>n. deref_group gs gi = Inr (g\<lparr>sunk := sunk g + n\<rparr>)"
    using "2.prems" by (intro exI [of _ 0]) simp
  show ?case
  proof (cases "GetBuildScanner g b")
    case (Inl e)
    with "2.prems" same show ?thesis by simp
  next
    case so: (Inr so)
    show ?thesis
    proof (cases so)
      case None
      with "2.prems" so same show ?thesis by simp
    next
      case (Some sc)
      obtain r sc' gs1 where ss: "sink_scan X gi sc gs = (r, sc', gs1)"
        by (cases "sink_scan X gi sc gs") auto
      from sink_scan_sunk [OF "2.prems", of X sc] ss
      obtain n1 where d1: "deref_group gs1 gi = Inr (g\<lparr>sunk := sunk g + n1\<rparr>)"
        by (auto simp del: sink_scan.simps)
      show ?thesis
      proof (cases r)
        case (Inl e)
        with "2.prems" so Some ss d1 show ?thesis by (auto simp del: sink_scan.simps)
      next
        case u: (Inr u)
        from d1 have d2: "deref_group (set_begin_idx ti (b + 1) gs1) gi =
                          Inr (g\<lparr>sunk := sunk g + n1\<rparr>)"
          by (simp add: deref_group_set_begin_idx)
        from "2.IH" [OF "2.prems" so Some ss [symmetric] _ _ d2] u
        obtain n2 where n2:
          "deref_group (snd (snd (sink_blocks X ti gi bs (ls\<lparr>scanner := None\<rparr>)
                                    (set_begin_idx ti (b + 1) gs1)))) gi =
           Inr (g\<lparr>sunk := sunk g + (n1 + n2)\<rparr>)"
          by (auto simp del: sink_scan.simps simp: add.assoc)
        have step: "sink_blocks X ti gi (b # bs) ls gs =
                    sink_blocks X ti gi bs (ls\<lparr>scanner := None\<rparr>) (set_begin_idx ti (b + 1) gs1)"
          using "2.prems" so Some ss u by (simp del: sink_scan.simps)
        show ?thesis unfolding step using n2 by (rule exI [of _ "n1 + n2"])
      qed
    qed
  qed
qed

lemma LocalSource_Sink_sunk:
  assumes "LocalSource_Sink X ls gs = (r, ls', gs')"
    and "window_hash_group ls = Some gi"
    and "deref_group gs gi = Inr g"
  shows "\<exists>n. deref_group gs' gi = Inr (g\<lparr>sunk := sunk g + n\<rparr>)"
proof (cases "deref_task gs (task ls)")
  case (Inl e)
  with assms show ?thesis by (intro exI [of _ 0]) (simp add: LocalSource_Sink_def)
next
  case (Inr t)
  from sink_blocks_sunk [OF assms(3), of X "the (task ls)" "[begin_idx t..<end_idx t]" ls]
       assms(1,2) Inr
  show ?thesis by (simp add: LocalSource_Sink_def)
qed

lemma LocalSource_Finalize_finalized:
  assumes "LocalSource_Finalize X ls gs = (r, ls', gs')"
    and "window_hash_group ls = Some gi"
    and "deref_group gs gi = Inr g"
  shows "\<exists>n. deref_group gs' gi = Inr (g\<lparr>finalized := finalized g + n\<rparr>)"
proof (cases "deref_task gs (task ls)")
  case (Inl e)
  with assms show ?thesis by (intro exI [of _ 0]) (simp add: LocalSource_Finalize_def)
next
  case (Inr t)
  show ?thesis
  proof (cases "executor_throws X FINALIZE gi (begin_idx t)")
    case True
    with assms Inr show ?thesis by (intro exI [of _ 0]) (simp add: LocalSource_Finalize_def)
  next
    case False
    with assms Inr show ?thesis
      by (intro exI [of _ "end_idx t - begin_idx t"])
         (auto simp: LocalSource_Finalize_def deref_group_set_begin_idx deref_group_set_group)
  qed
qed

text \<open>
  Claim C2.  \<^verbatim>\<open>GetStage()\<close> is read by \<^verbatim>\<open>TryNextTask\<close>, for the group of the task at the
  cursor.  Such a group has at least one block: the constructor builds tasks only for
  groups with blocks (\<open>ctor_tasks_have_blocks\<close>), and a new group has the number of its row
  blocks in \<^verbatim>\<open>blocks\<close> and \<open>0\<close> in \<^verbatim>\<open>sunk\<close> and \<^verbatim>\<open>finalized\<close> (\<open>WindowHashGroup_ctor_fresh\<close>).
  \<^verbatim>\<open>Sink\<close> only adds to \<^verbatim>\<open>sunk\<close> and \<^verbatim>\<open>Finalize\<close> only adds to \<^verbatim>\<open>finalized\<close>
  (\<open>LocalSource_Sink_sunk\<close>, \<open>LocalSource_Finalize_finalized\<close>), and a FINALIZE task is
  dispensed only when \<^verbatim>\<open>sunk == count\<close> (\<open>TryNextTask_FINALIZE\<close>), so nothing is finalized
  before everything is sunk.  For a group in such a state (\<open>stage_inv\<close>), \<^verbatim>\<open>GetStage()\<close>
  returns SINK while \<^verbatim>\<open>sunk < count\<close>, FINALIZE once \<^verbatim>\<open>sunk == count\<close> with
  \<^verbatim>\<open>finalized < blocks\<close>, and GETDATA once \<^verbatim>\<open>finalized == blocks\<close>; and in a later state of the
  group, where \<^verbatim>\<open>sunk\<close> and \<^verbatim>\<open>finalized\<close> are not smaller, the stage is not earlier in the
  sequence SINK, FINALIZE, GETDATA, DONE.
\<close>

theorem GetStage_stages_monotone:
  assumes "stage_inv g"
  shows "(sunk g < count g \<longrightarrow> GetStage g = SINK) \<and>
         (sunk g = count g \<and> finalized g < blocks g \<longrightarrow> GetStage g = FINALIZE) \<and>
         (finalized g = blocks g \<longrightarrow> GetStage g = GETDATA) \<and>
         (stage_inv g' \<and> count g' = count g \<and> blocks g' = blocks g \<and>
          sunk g \<le> sunk g' \<and> finalized g \<le> finalized g'
            \<longrightarrow> stage_rank (GetStage g) \<le> stage_rank (GetStage g'))"
proof (intro conjI impI)
  assume "sunk g < count g"
  with assms have "finalized g \<noteq> blocks g" "sunk g \<noteq> count g"
    by (auto simp: stage_inv_def)
  then show "GetStage g = SINK" by (simp add: GetStage_simps)
next
  assume "sunk g = count g \<and> finalized g < blocks g"
  then show "GetStage g = FINALIZE" by (simp add: GetStage_simps)
next
  assume "finalized g = blocks g"
  then show "GetStage g = GETDATA" by (simp add: GetStage_simps)
next
  assume a: "stage_inv g' \<and> count g' = count g \<and> blocks g' = blocks g \<and>
             sunk g \<le> sunk g' \<and> finalized g \<le> finalized g'"
  then have b: "sunk g' \<le> count g" "finalized g' \<le> blocks g"
    by (simp_all add: stage_inv_def)
  show "stage_rank (GetStage g) \<le> stage_rank (GetStage g')"
  proof (cases "finalized g = blocks g")
    case True
    with a b have "finalized g' = blocks g'" by simp
    then show ?thesis by (simp add: GetStage_simps)
  next
    case fin: False
    show ?thesis
    proof (cases "sunk g = count g")
      case True
      with a b have "sunk g' = count g'" by simp
      with fin True show ?thesis by (simp add: GetStage_simps)
    next
      case False
      with fin show ?thesis by (simp add: GetStage_simps)
    qed
  qed
qed

text \<open>
  A run of one worker on the example group of 4 rows in 2 blocks: the constructor leaves
  it with nothing sunk; a worker whose Executor throws in FINALIZE leaves it with its rows
  sunk; a worker whose Executors do not throw leaves it with its blocks finalized, and
  returns the first batch.
\<close>

lemma ex_constructed:
  "WindowGlobalSourceState_ctor (\<lambda>r h. (r, h)) 1 (ex_gpart [Some (ex_group 0 0 0)]) =
   Some (Inr (ex_gsource [Some (ex_group 0 0 3)] 0 False))"
  by code_simp

lemma ex_worker_throws:
  "LocalSource_GetData ex_collab 0 new_WindowLocalSourceState
     (ex_gsource [Some (ex_group 0 0 3)] 0 False) =
   Some (Inl ExecutorError, 0,
         \<lparr>batch_index = 0, task = Some 1, window_hash_group = Some 0, scanner = None\<rparr>,
         \<lparr>global_partition = ex_gpart [Some (ex_group 4 0 3)], tasks = ex_failed_tasks,
          next_task = 2, stopped = False, returned = 0, blocked_tasks = []\<rparr>)"
  by code_simp

lemma ex_worker_finalizes:
  "LocalSource_GetData ex_quiet 0 new_WindowLocalSourceState
     (ex_gsource [Some (ex_group 0 0 3)] 0 False) =
   Some (Inr True, 2, ex_scanning 0 0 2 2,
         \<lparr>global_partition = ex_gpart [Some (ex_group 4 2 3)],
          tasks =
            [\<lparr>stage = SINK, group_idx = 0, max_idx = 2, begin_idx = 2, end_idx = 2\<rparr>,
             \<lparr>stage = FINALIZE, group_idx = 0, max_idx = 2, begin_idx = 2, end_idx = 2\<rparr>,
             \<lparr>stage = GETDATA, group_idx = 0, max_idx = 2, begin_idx = 0, end_idx = 2\<rparr>],
          next_task = 3, stopped = False, returned = 0, blocked_tasks = []\<rparr>)"
  by code_simp

theorem GetStage_stages_monotone_witness:
  "stage_inv (ex_group 0 0 3) \<and> GetStage (ex_group 0 0 3) = SINK \<and>
   stage_inv (ex_group 4 0 3) \<and> GetStage (ex_group 4 0 3) = FINALIZE \<and>
   stage_inv (ex_group 4 2 3) \<and> GetStage (ex_group 4 2 3) = GETDATA \<and>
   stage_rank (GetStage (ex_group 0 0 3)) \<le> stage_rank (GetStage (ex_group 4 0 3)) \<and>
   stage_rank (GetStage (ex_group 4 0 3)) \<le> stage_rank (GetStage (ex_group 4 2 3))"
  using GetStage_stages_monotone [of "ex_group 0 0 3" "ex_group 4 0 3"]
        GetStage_stages_monotone [of "ex_group 4 0 3" "ex_group 4 2 3"]
        GetStage_stages_monotone [of "ex_group 4 2 3" "ex_group 4 2 3"]
  by (simp add: stage_inv_def)

subsection \<open>Exceptions in the operator's GetData\<close>

text \<open>
  Nothing that a worker's \<^verbatim>\<open>GetData\<close> calls writes the blocked task queue, and the
  constructor leaves it empty.
\<close>

lemma set_group_blocked_tasks: "blocked_tasks (set_group gi slot gs) = blocked_tasks gs"
  by (simp add: set_group_def)

lemma set_begin_idx_blocked_tasks: "blocked_tasks (set_begin_idx ti b gs) = blocked_tasks gs"
  by (simp add: set_begin_idx_def)

lemma TryNextTask_blocked_tasks:
  "TryNextTask gs = (r, tp, gs') \<Longrightarrow> blocked_tasks gs' = blocked_tasks gs"
  by (auto simp: TryNextTask_def Let_def split: if_splits sum.splits)

lemma FinishTask_blocked_tasks:
  "FinishTask tp gs = (r, gs') \<Longrightarrow> blocked_tasks gs' = blocked_tasks gs"
  by (auto simp: FinishTask_def Let_def set_group_blocked_tasks
           split: option.splits if_splits sum.splits)

lemma FinishHashGroup_blocked_tasks:
  "FinishHashGroup tp ls gs = (r, ls', gs') \<Longrightarrow> blocked_tasks gs' = blocked_tasks gs"
  by (auto simp: FinishHashGroup_def split: prod.splits dest: FinishTask_blocked_tasks)

lemma change_group_blocked_tasks:
  "change_group tp ls gs = (r, ls', gs') \<Longrightarrow> blocked_tasks gs' = blocked_tasks gs"
  by (auto simp: change_group_def split: sum.splits bool.splits prod.splits
           dest: FinishHashGroup_blocked_tasks)

lemma sink_scan_blocked_tasks:
  "blocked_tasks (snd (snd (sink_scan X gi sc gs))) = blocked_tasks gs"
proof (induction X gi sc gs rule: sink_scan.induct)
  case (1 X gi sc gs)
  show ?case
  proof (cases "min (vector_size X) (Remaining sc) = 0 \<or> executor_throws X SINK gi (sc_block sc)")
    case True
    then show ?thesis by (subst sink_scan.simps) auto
  next
    case False
    show ?thesis
    proof (cases "deref_group gs gi")
      case (Inl e)
      with False show ?thesis by (subst sink_scan.simps) simp
    next
      case (Inr g)
      with False "1.IH" [of g] show ?thesis
        by (subst sink_scan.simps) (simp add: set_group_blocked_tasks)
    qed
  qed
qed

lemma sink_blocks_blocked_tasks:
  "blocked_tasks (snd (snd (sink_blocks X ti gi bs ls gs))) = blocked_tasks gs"
proof (induction X ti gi bs ls gs rule: sink_blocks.induct)
  case (1 X ti gi ls gs)
  show ?case by simp
next
  case (2 X ti gi b bs ls gs)
  show ?case
  proof (cases "deref_group gs gi")
    case (Inl e)
    then show ?thesis by simp
  next
    case (Inr g)
    show ?thesis
    proof (cases "GetBuildScanner g b")
      case (Inl e)
      with Inr show ?thesis by simp
    next
      case so: (Inr so)
      show ?thesis
      proof (cases so)
        case None
        with Inr so show ?thesis by simp
      next
        case (Some sc)
        obtain r sc' gs1 where ss: "sink_scan X gi sc gs = (r, sc', gs1)"
          by (cases "sink_scan X gi sc gs") auto
        from sink_scan_blocked_tasks [of X gi sc gs] ss
        have b1: "blocked_tasks gs1 = blocked_tasks gs" by simp
        show ?thesis
        proof (cases r)
          case (Inl e)
          with Inr so Some ss b1 show ?thesis by simp
        next
          case u: (Inr u)
          from "2.IH" [OF Inr so Some ss [symmetric] _ _] u
          have "blocked_tasks (snd (snd (sink_blocks X ti gi bs (ls\<lparr>scanner := None\<rparr>)
                   (set_begin_idx ti (b + 1) gs1)))) = blocked_tasks (set_begin_idx ti (b + 1) gs1)"
            by simp
          with Inr so Some ss u b1 show ?thesis by (simp add: set_begin_idx_blocked_tasks)
        qed
      qed
    qed
  qed
qed

lemma sink_blocks_blocked_tasks_result:
  assumes "sink_blocks X ti gi bs ls gs = (r, ls', gs')"
  shows "blocked_tasks gs' = blocked_tasks gs"
  using sink_blocks_blocked_tasks [of X ti gi bs ls gs] assms by simp

lemma LocalSource_Sink_blocked_tasks:
  "LocalSource_Sink X ls gs = (r, ls', gs') \<Longrightarrow> blocked_tasks gs' = blocked_tasks gs"
  by (auto simp: LocalSource_Sink_def split: option.splits sum.splits
           dest: sink_blocks_blocked_tasks_result)

lemma LocalSource_Finalize_blocked_tasks:
  "LocalSource_Finalize X ls gs = (r, ls', gs') \<Longrightarrow> blocked_tasks gs' = blocked_tasks gs"
  by (auto simp: LocalSource_Finalize_def set_begin_idx_blocked_tasks set_group_blocked_tasks
           split: option.splits sum.splits if_splits)

lemma GetData_round_blocked_tasks:
  "blocked_tasks (case GetData_round X ls gs of Inl (r, ls', gs') \<Rightarrow> gs' | Inr (ls', gs') \<Rightarrow> gs') =
   blocked_tasks gs"
proof (cases "task_exhausted ls gs")
  case (Inl e)
  then show ?thesis by (simp add: GetData_round_def)
next
  case ex: (Inr b)
  show ?thesis
  proof (cases b)
    case False
    with ex show ?thesis by (simp add: GetData_round_def)
  next
    case exh: True
    obtain r1 tp gs1 where t: "TryNextTask gs = (r1, tp, gs1)" by (cases "TryNextTask gs") auto
    note b1 = TryNextTask_blocked_tasks [OF t]
    show ?thesis
    proof (cases r1)
      case (Inl e)
      with ex exh t b1 show ?thesis by (simp add: GetData_round_def)
    next
      case r1: (Inr rb)
      show ?thesis
      proof (cases rb)
        case False
        obtain r2 ls2 gs2 where
          f: "FinishHashGroup (task ls) (ls\<lparr>task := tp\<rparr>) gs1 = (r2, ls2, gs2)"
          by (cases "FinishHashGroup (task ls) (ls\<lparr>task := tp\<rparr>) gs1") auto
        from ex exh t r1 False f FinishHashGroup_blocked_tasks [OF f] b1 show ?thesis
          by (cases r2) (simp_all add: GetData_round_def)
      next
        case got: True
        obtain r2 ls2 gs2 where
          c: "change_group (task ls) (ls\<lparr>task := tp\<rparr>) gs1 = (r2, ls2, gs2)"
          by (cases "change_group (task ls) (ls\<lparr>task := tp\<rparr>) gs1") auto
        from change_group_blocked_tasks [OF c] b1
        have b2: "blocked_tasks gs2 = blocked_tasks gs" by simp
        show ?thesis
        proof (cases r2)
          case (Inl e)
          with ex exh t r1 got c b2 show ?thesis by (simp add: GetData_round_def)
        next
          case r2: (Inr u)
          show ?thesis
          proof (cases "task ls2")
            case None
            with ex exh t r1 got c r2 b2 show ?thesis by (simp add: GetData_round_def)
          next
            case ti: (Some ti)
            show ?thesis
            proof (cases "deref_task gs2 (Some ti)")
              case (Inl e)
              with ex exh t r1 got c r2 ti b2 show ?thesis by (simp add: GetData_round_def)
            next
              case tk: (Inr tk)
              show ?thesis
              proof (cases "stage tk")
                case SINK
                obtain r3 ls3 gs3 where s: "LocalSource_Sink X ls2 gs2 = (r3, ls3, gs3)"
                  by (cases "LocalSource_Sink X ls2 gs2") auto
                from ex exh t r1 got c r2 ti tk SINK s LocalSource_Sink_blocked_tasks [OF s] b2
                show ?thesis by (cases r3) (simp_all add: GetData_round_def)
              next
                case FINALIZE
                obtain r3 ls3 gs3 where s: "LocalSource_Finalize X ls2 gs2 = (r3, ls3, gs3)"
                  by (cases "LocalSource_Finalize X ls2 gs2") auto
                from ex exh t r1 got c r2 ti tk FINALIZE s
                     LocalSource_Finalize_blocked_tasks [OF s] b2
                show ?thesis by (cases r3) (simp_all add: GetData_round_def)
              next
                case GETDATA
                with ex exh t r1 got c r2 ti tk b2 show ?thesis by (simp add: GetData_round_def)
              next
                case DONE
                with ex exh t r1 got c r2 ti tk b2 show ?thesis by (simp add: GetData_round_def)
              qed
            qed
          qed
        qed
      qed
    qed
  qed
qed

lemma GetData_loop_blocked_tasks:
  assumes "GetData_loop X ls gs = Some y"
  shows "blocked_tasks (snd (snd y)) = blocked_tasks gs"
proof (rule GetData_loop.raw_induct
    [where P = "\<lambda>X ls gs y. blocked_tasks (snd (snd y)) = blocked_tasks gs",
     rotated 1, OF assms])
  fix loop X ls gs y
  assume IH: "\<And>ls gs b y. loop ls gs b = Some y \<Longrightarrow>
                blocked_tasks (snd (snd y)) = blocked_tasks b"
    and eq: "(case GetData_round X ls gs of Inl r \<Rightarrow> Some r
              | Inr (ls', gs') \<Rightarrow> loop X ls' gs') = Some y"
  show "blocked_tasks (snd (snd y)) = blocked_tasks gs"
  proof (cases "GetData_round X ls gs")
    case (Inl r)
    obtain o' ls' gs' where r: "r = (o', ls', gs')" by (cases r) auto
    from Inl r eq GetData_round_blocked_tasks [of X ls gs] show ?thesis by auto
  next
    case (Inr st)
    obtain ls1 gs1 where st: "st = (ls1, gs1)" by (cases st) auto
    from eq Inr st have "loop X ls1 gs1 = Some y" by simp
    from IH [OF this] GetData_round_blocked_tasks [of X ls gs] Inr st
    show ?thesis by simp
  qed
qed

lemma drop_exhausted_scanner_blocked_tasks:
  "drop_exhausted_scanner ls gs = (r, ls', gs') \<Longrightarrow> blocked_tasks gs' = blocked_tasks gs"
  by (auto simp: drop_exhausted_scanner_def set_begin_idx_blocked_tasks
           split: option.splits if_splits sum.splits)

lemma evaluate_block_blocked_tasks:
  "evaluate_block X chunk ls gs = (r, chunk', ls', gs') \<Longrightarrow> gs' = gs"
  by (auto simp: evaluate_block_def Let_def split: sum.splits option.splits prod.splits if_splits)

lemma LocalSource_GetData_blocked_tasks:
  assumes "LocalSource_GetData X chunk ls gs = Some (r, chunk', ls', gs')"
  shows "blocked_tasks gs' = blocked_tasks gs"
proof -
  obtain r1 ls1 gs1 where d: "drop_exhausted_scanner ls gs = (r1, ls1, gs1)"
    by (cases "drop_exhausted_scanner ls gs") auto
  note b1 = drop_exhausted_scanner_blocked_tasks [OF d]
  show ?thesis
  proof (cases r1)
    case (Inl e)
    with assms d b1 show ?thesis by (simp add: LocalSource_GetData_def)
  next
    case (Inr u)
    with assms d obtain o2 ls2 gs2 where l: "GetData_loop X ls1 gs1 = Some (o2, ls2, gs2)"
      by (cases "GetData_loop X ls1 gs1") (auto simp: LocalSource_GetData_def)
    from GetData_loop_blocked_tasks [OF l] b1 have b2: "blocked_tasks gs2 = blocked_tasks gs"
      by simp
    show ?thesis
    proof (cases o2)
      case (Inl e)
      with assms d Inr l b2 show ?thesis by (simp add: LocalSource_GetData_def)
    next
      case ex: (Inr ex)
      show ?thesis
      proof (cases ex)
        case (Return b)
        with assms d Inr l ex b2 show ?thesis by (simp add: LocalSource_GetData_def)
      next
        case Proceed
        with assms d Inr l ex
        have "evaluate_block X chunk ls2 gs2 = (r, chunk', ls', gs')"
          by (simp add: LocalSource_GetData_def)
        from evaluate_block_blocked_tasks [OF this] b2 show ?thesis by simp
      qed
    qed
  qed
qed

lemma yield_loop_blocked_tasks_aux:
  assumes "yield_loop X yield n chunk ls gs = Some y"
  shows "(\<forall>n g. blocked_tasks (yield n g) = blocked_tasks g) \<longrightarrow>
         blocked_tasks (snd (snd (snd y))) = blocked_tasks gs"
proof (rule yield_loop.raw_induct
    [where P = "\<lambda>X yield n chunk ls gs y.
                  (\<forall>n g. blocked_tasks (yield n g) = blocked_tasks g) \<longrightarrow>
                  blocked_tasks (snd (snd (snd y))) = blocked_tasks gs",
     rotated 1, OF assms])
  fix yl X yield n chunk ls gs y
  assume IH: "\<And>yield n chunk ls gs b y. yl yield n chunk ls gs b = Some y \<Longrightarrow>
                (\<forall>m g. blocked_tasks (n m g) = blocked_tasks g) \<longrightarrow>
                blocked_tasks (snd (snd (snd y))) = blocked_tasks b"
    and eq: "(case LocalSource_GetData X chunk ls gs of
                None \<Rightarrow> None
              | Some (Inl e, chunk', ls', gs') \<Rightarrow> Some (Inl e, chunk', ls', gs')
              | Some (Inr r, chunk', ls', gs') \<Rightarrow>
                  if r then Some (Inr (), chunk', ls', gs')
                  else yl X yield (n + 1) chunk' ls' (yield n gs')) = Some y"
  show "(\<forall>n g. blocked_tasks (yield n g) = blocked_tasks g) \<longrightarrow>
        blocked_tasks (snd (snd (snd y))) = blocked_tasks gs"
  proof
    assume yy: "\<forall>n g. blocked_tasks (yield n g) = blocked_tasks g"
    show "blocked_tasks (snd (snd (snd y))) = blocked_tasks gs"
    proof (cases "LocalSource_GetData X chunk ls gs")
      case None
      with eq show ?thesis by simp
    next
      case (Some res)
      obtain o' chunk' ls' gs' where res: "res = (o', chunk', ls', gs')" by (cases res) auto
      from Some res have b1: "blocked_tasks gs' = blocked_tasks gs"
        by (auto dest: LocalSource_GetData_blocked_tasks)
      show ?thesis
      proof (cases o')
        case (Inl e')
        with eq Some res b1 show ?thesis by auto
      next
        case (Inr b)
        show ?thesis
        proof (cases b)
          case True
          with eq Some res Inr b1 show ?thesis by auto
        next
          case False
          with eq Some res Inr have "yl X yield (n + 1) chunk' ls' (yield n gs') = Some y" by simp
          from IH [OF this] yy b1 show ?thesis by simp
        qed
      qed
    qed
  qed
qed

lemma yield_loop_blocked_tasks:
  assumes "yield_loop X yield n chunk ls gs = Some (r, chunk', ls', gs')"
    and "\<And>n g. blocked_tasks (yield n g) = blocked_tasks g"
  shows "blocked_tasks gs' = blocked_tasks gs"
  using yield_loop_blocked_tasks_aux [OF assms(1)] assms(2) by simp

lemma ctor_blocked_tasks:
  assumes "WindowGlobalSourceState_ctor align threads gp0 = Some (Inr gs)"
  shows "blocked_tasks gs = []"
proof -
  from assms obtain gp where cg: "collect_groups align gp0 = Inr gp"
    by (cases "collect_groups align gp0") (auto simp: WindowGlobalSourceState_ctor_def)
  show ?thesis
  proof (cases "window_hash_groups gp = []")
    case True
    with assms cg show ?thesis by (auto simp: WindowGlobalSourceState_ctor_def Let_def)
  next
    case ne: False
    show ?thesis
    proof (cases "\<forall>w \<in> set (window_hash_groups gp). populated w")
      case False
      from ctor_null [OF cg ne False, of threads] assms show ?thesis by simp
    next
      case pop: True
      show ?thesis
      proof (cases "0 < threads")
        case True
        from ctor_run [OF cg ne pop True] assms show ?thesis by (auto simp: emitted_def)
      next
        case False
        with assms cg ne show ?thesis
          by (auto simp: WindowGlobalSourceState_ctor_def Let_def
                   split: sum.splits list.splits)
      qed
    qed
  qed
qed

lemma yield_loop_exception_origin:
  assumes "yield_loop X yield n chunk ls gs = Some r"
  shows "fst r = Inl e \<longrightarrow> (\<exists>c l g. LocalSource_GetData X c l g = Some (Inl e, snd r))"
proof (rule yield_loop.raw_induct
    [where P = "\<lambda>X yield n chunk ls gs r.
                  fst r = Inl e \<longrightarrow> (\<exists>c l g. LocalSource_GetData X c l g = Some (Inl e, snd r))",
     rotated 1, OF assms])
  fix yl X yield n chunk ls gs r
  assume IH: "\<And>yield n chunk ls gs b y. yl yield n chunk ls gs b = Some y \<Longrightarrow>
                fst y = Inl e \<longrightarrow> (\<exists>c l g. LocalSource_GetData yield c l g = Some (Inl e, snd y))"
    and eq: "(case LocalSource_GetData X chunk ls gs of
                None \<Rightarrow> None
              | Some (Inl e, chunk', ls', gs') \<Rightarrow> Some (Inl e, chunk', ls', gs')
              | Some (Inr r, chunk', ls', gs') \<Rightarrow>
                  if r then Some (Inr (), chunk', ls', gs')
                  else yl X yield (n + 1) chunk' ls' (yield n gs')) = Some r"
  show "fst r = Inl e \<longrightarrow> (\<exists>c l g. LocalSource_GetData X c l g = Some (Inl e, snd r))"
  proof (cases "LocalSource_GetData X chunk ls gs")
    case None
    with eq show ?thesis by simp
  next
    case (Some res)
    obtain o' chunk' ls' gs' where res: "res = (o', chunk', ls', gs')" by (cases res) auto
    show ?thesis
    proof (cases o')
      case (Inl e')
      with eq Some res show ?thesis by (auto intro!: exI)
    next
      case (Inr b)
      show ?thesis
      proof (cases b)
        case True
        with eq Some res Inr show ?thesis by auto
      next
        case False
        with eq Some res Inr have "yl X yield (n + 1) chunk' ls' (yield n gs') = Some r" by simp
        from IH [OF this] show ?thesis .
      qed
    qed
  qed
qed

lemma yield_loop_throw:
  assumes "LocalSource_GetData X chunk ls gs = Some (Inl e, chunk', ls', gs')"
  shows "yield_loop X yield n chunk ls gs = Some (Inl e, chunk', ls', gs')"
  using assms by (subst yield_loop.simps) simp

text \<open>
  Claim C7.  The blocked task queue is written by \<^verbatim>\<open>UpdateBlockedTasks\<close> only, which the
  operator as compiled (the variant under \<^verbatim>\<open>#if 1\<close>) does not call: the constructor leaves
  the queue empty (\<open>ctor_blocked_tasks\<close>) and a worker's \<^verbatim>\<open>GetData\<close> keeps it
  (\<open>LocalSource_GetData_blocked_tasks\<close>).  So let the queue be empty when the operator's
  \<^verbatim>\<open>GetData\<close> is called, and let the other threads keep it while this one yields.  Then an
  exception thrown by the worker's \<^verbatim>\<open>GetData\<close>, in the first round of the loop or in a later
  one, leaves the operator as the same exception, with \<^verbatim>\<open>stopped\<close> set and with no waiter
  queued: the flush \<^verbatim>\<open>UpdateBlockedTasks(false, ...)\<close> would find nobody to call back and
  would leave the state as it is.  Every exception that leaves the operator was thrown by
  a call of the worker's \<^verbatim>\<open>GetData\<close>.  In the variant under \<^verbatim>\<open>#else\<close>, the handler calls back
  every waiter that was queued when the operator was called and clears the queue.
\<close>

theorem GetData_exception_sets_stopped:
  assumes "blocked_tasks gs = []"
    and "\<forall>n g. blocked_tasks (yield n g) = blocked_tasks g"
  shows
   "(LocalSource_GetData X chunk ls gs = Some (Inl e, chunk', ls', gs1) \<longrightarrow>
       PhysicalWindow_GetData X yield chunk ls gs =
         Some (Inl e, chunk', ls', gs1\<lparr>stopped := True\<rparr>)) \<and>
    (yield_loop X yield 0 chunk ls gs = Some (Inl e, chunk', ls', gs1) \<longrightarrow>
       blocked_tasks gs1 = [] \<and>
       PhysicalWindow_GetData X yield chunk ls gs =
         Some (Inl e, chunk', ls', gs1\<lparr>stopped := True\<rparr>) \<and>
       UpdateBlockedTasks False interrupt_state (gs1\<lparr>stopped := True\<rparr>) =
         (False, [], gs1\<lparr>stopped := True\<rparr>)) \<and>
    (PhysicalWindow_GetData X yield chunk ls gs = Some (Inl e, chunk', ls', gs2) \<longrightarrow>
       stopped gs2 \<and> blocked_tasks gs2 = [] \<and>
       (\<exists>gs1. yield_loop X yield 0 chunk ls gs = Some (Inl e, chunk', ls', gs1) \<and>
              (\<exists>c l g. LocalSource_GetData X c l g = Some (Inl e, chunk', ls', gs1)) \<and>
              gs2 = gs1\<lparr>stopped := True\<rparr>)) \<and>
    (LocalSource_GetData X chunk ls gs0 = Some (Inl e, chunk', ls', gs1) \<longrightarrow>
       PhysicalWindow_GetData_else X interrupt_state chunk ls gs0 =
         Some (Inl e, blocked_tasks gs0, chunk', ls',
               gs1\<lparr>stopped := True, blocked_tasks := []\<rparr>))"
proof (intro conjI impI)
  assume "LocalSource_GetData X chunk ls gs = Some (Inl e, chunk', ls', gs1)"
  from yield_loop_throw [OF this, of yield 0]
  show "PhysicalWindow_GetData X yield chunk ls gs =
          Some (Inl e, chunk', ls', gs1\<lparr>stopped := True\<rparr>)"
    by (simp add: PhysicalWindow_GetData_def)
next
  assume y: "yield_loop X yield 0 chunk ls gs = Some (Inl e, chunk', ls', gs1)"
  from yield_loop_blocked_tasks [OF y] assms show b: "blocked_tasks gs1 = []" by simp
  from y show "PhysicalWindow_GetData X yield chunk ls gs =
          Some (Inl e, chunk', ls', gs1\<lparr>stopped := True\<rparr>)"
    by (simp add: PhysicalWindow_GetData_def)
  from b show "UpdateBlockedTasks False interrupt_state (gs1\<lparr>stopped := True\<rparr>) =
         (False, [], gs1\<lparr>stopped := True\<rparr>)"
    by (simp add: UpdateBlockedTasks_def)
next
  assume a: "PhysicalWindow_GetData X yield chunk ls gs = Some (Inl e, chunk', ls', gs2)"
  then show "stopped gs2"
    by (auto simp: PhysicalWindow_GetData_def split: option.splits sum.splits prod.splits)
  from a obtain gs1 where y: "yield_loop X yield 0 chunk ls gs = Some (Inl e, chunk', ls', gs1)"
    and g: "gs2 = gs1\<lparr>stopped := True\<rparr>"
    by (auto simp: PhysicalWindow_GetData_def split: option.splits sum.splits prod.splits)
  from yield_loop_blocked_tasks [OF y] assms g show "blocked_tasks gs2 = []" by simp
  from yield_loop_exception_origin [OF y, of e]
  have "\<exists>c l g. LocalSource_GetData X c l g = Some (Inl e, chunk', ls', gs1)" by simp
  with y g show "\<exists>gs1. yield_loop X yield 0 chunk ls gs = Some (Inl e, chunk', ls', gs1) \<and>
              (\<exists>c l g. LocalSource_GetData X c l g = Some (Inl e, chunk', ls', gs1)) \<and>
              gs2 = gs1\<lparr>stopped := True\<rparr>"
    by auto
next
  assume a: "LocalSource_GetData X chunk ls gs0 = Some (Inl e, chunk', ls', gs1)"
  from LocalSource_GetData_blocked_tasks [OF a] a
  show "PhysicalWindow_GetData_else X interrupt_state chunk ls gs0 =
         Some (Inl e, blocked_tasks gs0, chunk', ls',
               gs1\<lparr>stopped := True, blocked_tasks := []\<rparr>)"
    by (simp add: PhysicalWindow_GetData_else_def UpdateBlockedTasks_def)
qed

text \<open>
  The operator on the state the constructor leaves for the example group, with a worker
  whose Executor throws in FINALIZE.
\<close>

theorem GetData_exception_sets_stopped_witness:
  "WindowGlobalSourceState_ctor (\<lambda>r h. (r, h)) 1 (ex_gpart [Some (ex_group 0 0 0)]) =
     Some (Inr (ex_gsource [Some (ex_group 0 0 3)] 0 False)) \<and>
   blocked_tasks (ex_gsource [Some (ex_group 0 0 3)] 0 False) = [] \<and>
   PhysicalWindow_GetData ex_collab (\<lambda>n gs. gs) 0 new_WindowLocalSourceState
     (ex_gsource [Some (ex_group 0 0 3)] 0 False) =
   Some (Inl ExecutorError, 0,
         \<lparr>batch_index = 0, task = Some 1, window_hash_group = Some 0, scanner = None\<rparr>,
         \<lparr>global_partition = ex_gpart [Some (ex_group 4 0 3)], tasks = ex_failed_tasks,
          next_task = 2, stopped = True, returned = 0, blocked_tasks = []\<rparr>) \<and>
   PhysicalWindow_GetData_else ex_collab 9 0 new_WindowLocalSourceState
     (ex_gsource [Some (ex_group 0 0 3)] 0 False) =
   Some (Inl ExecutorError, [], 0,
         \<lparr>batch_index = 0, task = Some 1, window_hash_group = Some 0, scanner = None\<rparr>,
         \<lparr>global_partition = ex_gpart [Some (ex_group 4 0 3)], tasks = ex_failed_tasks,
          next_task = 2, stopped = True, returned = 0, blocked_tasks = []\<rparr>)"
  using GetData_exception_sets_stopped
          [of "ex_gsource [Some (ex_group 0 0 3)] 0 False" "\<lambda>n gs. gs"
              ex_collab 0 new_WindowLocalSourceState ExecutorError 0
              "\<lparr>batch_index = 0, task = Some 1, window_hash_group = Some 0, scanner = None\<rparr>"
              "\<lparr>global_partition = ex_gpart [Some (ex_group 4 0 3)], tasks = ex_failed_tasks,
                next_task = 2, stopped = False, returned = 0, blocked_tasks = []\<rparr>"
              9 _ "ex_gsource [Some (ex_group 0 0 3)] 0 False"]
        ex_worker_throws ex_constructed
  by simp

end
